theory Spec2Isabelle
  imports Complex_Main
begin

section \<open>Points, cell indices and the box sort\<close>

text \<open>
  The sources are \<^verbatim>\<open>pysph/base/nnps.pyx\<close> and
  \<^verbatim>\<open>pysph/parallel/parallel_manager.pyx\<close>. A C \<^verbatim>\<open>double\<close> is read as a
  real number and the C \<^verbatim>\<open>int\<close> produced by \<^verbatim>\<open><int>floor(...)\<close> as an
  integer: rounding and the range of the cast are not part of the model. An
  \<^verbatim>\<open>unsigned int\<close> row index or global id is a natural number.
\<close>

datatype cPoint = cPoint (pt_x: real) (pt_y: real) (pt_z: real)

datatype cIntPoint = cIntPoint (ip_x: int) (ip_y: int) (ip_z: int)

definition cPoint_new :: "real \<Rightarrow> real \<Rightarrow> real \<Rightarrow> cPoint" where
  "cPoint_new a b c = cPoint a b c"

text \<open>
  Modelled from the spec: \<^verbatim>\<open>cPoint_distance\<close>, of the point module, which is
  not among the source files, is the Euclidean distance \<open>d = |xi - xj|\<close> of two
  points.
\<close>

definition cPoint_distance :: "cPoint \<Rightarrow> cPoint \<Rightarrow> real" where
  "cPoint_distance p q =
     sqrt ((pt_x p - pt_x q) * (pt_x p - pt_x q)
         + (pt_y p - pt_y q) * (pt_y p - pt_y q)
         + (pt_z p - pt_z q) * (pt_z p - pt_z q))"

text \<open>The comparison \<open>cPoint_distance p q < r\<close> without the square root.\<close>

definition distance_less :: "cPoint \<Rightarrow> cPoint \<Rightarrow> real \<Rightarrow> bool" where
  "distance_less p q r =
     (0 < r \<and> (pt_x p - pt_x q) * (pt_x p - pt_x q)
         + (pt_y p - pt_y q) * (pt_y p - pt_y q)
         + (pt_z p - pt_z q) * (pt_z p - pt_z q) < r * r)"

definition real_to_int :: "real \<Rightarrow> real \<Rightarrow> int" where
  "real_to_int real_val step = \<lfloor>real_val / step\<rfloor>"

definition find_cell_id :: "cPoint \<Rightarrow> real \<Rightarrow> cIntPoint" where
  "find_cell_id pnt cell_size =
     cIntPoint (real_to_int (pt_x pnt) cell_size) (real_to_int (pt_y pnt) cell_size) 0"

definition get_centroid :: "real \<Rightarrow> cIntPoint \<Rightarrow> cPoint" where
  "get_centroid cell_size cid =
     cPoint ((real_of_int (ip_x cid) + 0.5) * cell_size)
            ((real_of_int (ip_y cid) + 0.5) * cell_size)
            0"

text \<open>
  \<^verbatim>\<open>arange_uint(start, stop=-1)\<close>: with the default \<open>stop\<close> the rows
  \<open>0 .. start - 1\<close>, otherwise \<open>start .. stop - 1\<close>, each cast to an unsigned int.
\<close>

definition arange_uint :: "int \<Rightarrow> int \<Rightarrow> nat list" where
  "arange_uint start stop =
     (if stop = -1 then [0 ..< nat start]
      else map (\<lambda>i. nat ((start + int i) mod 2 ^ 32)) [0 ..< nat (stop - start)])"

section \<open>Cells\<close>

record Cell =
  c_cid :: cIntPoint
  c_cell_size :: real
  c_narrays :: nat
  lindices :: "nat list list"
  gindices :: "nat list list"
  nparticles :: "nat list"
  is_boundary :: bool
  centroid :: cPoint
  layers :: int
  boxmin :: cPoint
  boxmax :: cPoint
  nbrprocs :: "int list"

definition compute_bounding_box :: "real \<Rightarrow> int \<Rightarrow> Cell \<Rightarrow> Cell" where
  "compute_bounding_box cell_size lyrs c =
     c\<lparr> layers := lyrs,
        boxmin := cPoint (pt_x (centroid c) - (real_of_int lyrs + 0.5) * cell_size)
                         (pt_y (centroid c) - (real_of_int lyrs + 0.5) * cell_size)
                         0,
        boxmax := cPoint (pt_x (centroid c) + (real_of_int lyrs + 0.5) * cell_size)
                         (pt_y (centroid c) + (real_of_int lyrs + 0.5) * cell_size)
                         0 \<rparr>"

definition Cell_init :: "cIntPoint \<Rightarrow> real \<Rightarrow> nat \<Rightarrow> int \<Rightarrow> Cell" where
  "Cell_init cid cell_size n lyrs =
     compute_bounding_box cell_size lyrs
       \<lparr> c_cid = cIntPoint (ip_x cid) (ip_y cid) (ip_z cid),
         c_cell_size = cell_size,
         c_narrays = n,
         lindices = replicate n [],
         gindices = replicate n [],
         nparticles = replicate n 0,
         is_boundary = False,
         centroid = get_centroid cell_size cid,
         layers = lyrs,
         boxmin = cPoint 0 0 0,
         boxmax = cPoint 0 0 0,
         nbrprocs = [] \<rparr>"

text \<open>The default of the \<^verbatim>\<open>layers\<close> argument of \<^verbatim>\<open>Cell.__init__\<close>.\<close>

definition Cell_default_layers :: int where
  "Cell_default_layers = 2"

section \<open>Errors, output and arrays\<close>

text \<open>
  Every exception of the source is a value. \<open>OutOfBounds\<close> stands for an unchecked
  read of \<^verbatim>\<open>data[i]\<close> past the end of a C buffer, which the source does not
  guard against and this model does not continue from.
\<close>

datatype error = KeyError | TypeError | ValueError | IndexError | OutOfBounds
  | UnboundLocalError | OverflowError | NotImplementedError | SizeMismatch

definition bind_err :: "error + 'a \<Rightarrow> ('a \<Rightarrow> error + 'b) \<Rightarrow> error + 'b" where
  "bind_err m f = (case m of Inl e \<Rightarrow> Inl e | Inr a \<Rightarrow> f a)"

fun fold_err :: "('a \<Rightarrow> 's \<Rightarrow> error + 's) \<Rightarrow> 'a list \<Rightarrow> 's \<Rightarrow> error + 's" where
  "fold_err f [] s = Inr s"
| "fold_err f (a # as) s = (case f a s of Inl e \<Rightarrow> Inl e | Inr s' \<Rightarrow> fold_err f as s')"

text \<open>
  The \<^verbatim>\<open>print\<close> statement of the source writes a line to standard output;
  nothing in the two files writes to standard error. A line is kept as the format
  string's tag and its argument.
\<close>

datatype message = CellSizeTooSmall real | NNPSExtending nat | NeighborSearchExtending nat

record console =
  stdout :: "message list"
  stderr :: "message list"

definition print :: "message \<Rightarrow> console \<Rightarrow> console" where
  "print msg con = con\<lparr> stdout := stdout con @ [msg] \<rparr>"

datatype carray = DoubleArray "real list" | UIntArray "nat list" | IntArray "int list"
  | LongArray "int list"

fun carray_length :: "carray \<Rightarrow> nat" where
  "carray_length (DoubleArray xs) = length xs"
| "carray_length (UIntArray xs) = length xs"
| "carray_length (IntArray xs) = length xs"
| "carray_length (LongArray xs) = length xs"

text \<open>
  Modelled from the spec: the particle array class is not among the source files. It
  is a named mapping from property name to a dense vector of doubles, unsigned ints,
  ints or longs, all of the same length, the particle count.
\<close>

type_synonym ParticleArray = "string \<Rightarrow> carray option"

text \<open>
  Modelled from the spec: \<^verbatim>\<open>get_number_of_particles\<close>, of the particle array
  class, is the common length of the properties; it is read off the \<^verbatim>\<open>x\<close>
  property.
\<close>

definition get_number_of_particles :: "ParticleArray \<Rightarrow> nat" where
  "get_number_of_particles pa = (case pa ''x'' of None \<Rightarrow> 0 | Some c \<Rightarrow> carray_length c)"

definition get_double :: "ParticleArray \<Rightarrow> string \<Rightarrow> error + real list" where
  "get_double pa name =
     (case pa name of
        None \<Rightarrow> Inl KeyError
      | Some (DoubleArray xs) \<Rightarrow> Inr xs
      | Some _ \<Rightarrow> Inl TypeError)"

definition get_uint :: "ParticleArray \<Rightarrow> string \<Rightarrow> error + nat list" where
  "get_uint pa name =
     (case pa name of
        None \<Rightarrow> Inl KeyError
      | Some (UIntArray xs) \<Rightarrow> Inr xs
      | Some _ \<Rightarrow> Inl TypeError)"

definition get_int :: "ParticleArray \<Rightarrow> string \<Rightarrow> error + int list" where
  "get_int pa name =
     (case pa name of
        None \<Rightarrow> Inl KeyError
      | Some (IntArray xs) \<Rightarrow> Inr xs
      | Some _ \<Rightarrow> Inl TypeError)"

text \<open>
  Modelled from the spec: \<^verbatim>\<open>update_min_max\<close>, of the array class, which is not
  among the source files, finds the largest and the smallest element; an empty array
  has neither and never moves a running maximum or minimum.
\<close>

fun maximum :: "real list \<Rightarrow> real option" where
  "maximum [] = None"
| "maximum (a # as) = Some (fold max as a)"

fun minimum :: "real list \<Rightarrow> real option" where
  "minimum [] = None"
| "minimum (a # as) = Some (fold min as a)"

text \<open>
  A Python dict is an association list with distinct keys, looked up with
  \<^const>\<open>map_of\<close>; a new key goes to the end.
\<close>

fun dict_update :: "'k \<Rightarrow> ('v \<Rightarrow> 'v) \<Rightarrow> ('k \<times> 'v) list \<Rightarrow> ('k \<times> 'v) list" where
  "dict_update k f [] = []"
| "dict_update k f (kv # kvs) =
     (if fst kv = k then (k, f (snd kv)) # kvs else kv # dict_update k f kvs)"

definition has_key :: "('k \<times> 'v) list \<Rightarrow> 'k \<Rightarrow> bool" where
  "has_key d k = (map_of d k \<noteq> None)"

definition dict_insert :: "'k \<Rightarrow> 'v \<Rightarrow> ('k \<times> 'v) list \<Rightarrow> ('k \<times> 'v) list" where
  "dict_insert k v d = (if has_key d k then dict_update k (\<lambda>_. v) d else d @ [(k, v)])"

section \<open>The serial neighbour search\<close>

text \<open>
  \<^verbatim>\<open>NNPSParticleArrayWrapper\<close> caches the coordinate and smoothing-length
  arrays of one particle array and its particle count. The fields are typed
  \<^verbatim>\<open>DoubleArray\<close>, so a missing or differently typed property raises. The
  reference to the particle array and its name are left out.
\<close>

record NNPSParticleArrayWrapper =
  w_x :: "real list"
  w_y :: "real list"
  w_z :: "real list"
  w_h :: "real list"
  w_np :: nat

definition NNPSParticleArrayWrapper_init :: "ParticleArray \<Rightarrow> error + NNPSParticleArrayWrapper" where
  "NNPSParticleArrayWrapper_init pa =
     bind_err (get_double pa ''x'') (\<lambda>x.
     bind_err (get_double pa ''y'') (\<lambda>y.
     bind_err (get_double pa ''z'') (\<lambda>z.
     bind_err (get_double pa ''h'') (\<lambda>h.
       Inr \<lparr> w_x = x, w_y = y, w_z = z, w_h = h, w_np = get_number_of_particles pa \<rparr>))))"

fun map_err :: "('a \<Rightarrow> error + 'b) \<Rightarrow> 'a list \<Rightarrow> error + 'b list" where
  "map_err f [] = Inr []"
| "map_err f (a # as) =
     (case f a of
        Inl e \<Rightarrow> Inl e
      | Inr b \<Rightarrow> (case map_err f as of Inl e \<Rightarrow> Inl e | Inr bs \<Rightarrow> Inr (b # bs)))"

record DomainLimits =
  dl_xmin :: real
  dl_xmax :: real
  dl_ymin :: real
  dl_ymax :: real
  dl_zmin :: real
  dl_zmax :: real
  dl_is_periodic :: bool
  dl_xtranslate :: real
  dl_ytranslate :: real
  dl_ztranslate :: real
  dl_dim :: int

definition DomainLimits_init ::
  "int \<Rightarrow> real \<Rightarrow> real \<Rightarrow> real \<Rightarrow> real \<Rightarrow> real \<Rightarrow> real \<Rightarrow> bool \<Rightarrow> error + DomainLimits" where
  "DomainLimits_init dimension xmin xmax ymin ymax zmin zmax is_periodic =
     (if xmax < xmin \<or> ymax < ymin \<or> zmax < zmin then Inl ValueError
      else Inr \<lparr> dl_xmin = xmin, dl_xmax = xmax, dl_ymin = ymin, dl_ymax = ymax,
                 dl_zmin = zmin, dl_zmax = zmax, dl_is_periodic = is_periodic,
                 dl_xtranslate = xmax - xmin, dl_ytranslate = ymax - ymin,
                 dl_ztranslate = zmax - zmin, dl_dim = dimension \<rparr>)"

record NNPS =
  nnps_particles :: "ParticleArray list"
  nnps_narrays :: nat
  nnps_pa_wrappers :: "NNPSParticleArrayWrapper list"
  nnps_radius_scale :: real
  nnps_dim :: int
  nnps_domain :: DomainLimits
  nnps_cells :: "(cIntPoint \<times> Cell) list"
  nnps_cell_size :: real
  nnps_console :: console

text \<open>The running maximum of \<^verbatim>\<open>_compute_cell_size\<close>, started at -1.\<close>

definition NNPS_hmax :: "NNPSParticleArrayWrapper list \<Rightarrow> real" where
  "NNPS_hmax ws =
     fold (\<lambda>w hmax. case maximum (w_h w) of
                        None \<Rightarrow> hmax
                      | Some m \<Rightarrow> if m > hmax then m else hmax) ws (-1)"

definition NNPS_compute_cell_size :: "NNPS \<Rightarrow> NNPS" where
  "NNPS_compute_cell_size s =
     (let hmax = NNPS_hmax (nnps_pa_wrappers s);
          cell_size = nnps_radius_scale s * hmax
      in if cell_size < 1 / 1000000
         then s\<lparr> nnps_console := print (CellSizeTooSmall cell_size) (nnps_console s),
                 nnps_cell_size := 1 \<rparr>
         else s\<lparr> nnps_cell_size := cell_size \<rparr>)"

text \<open>
  One turn of the loop of \<^verbatim>\<open>NNPS._bin\<close>: the cell is created with the default
  layer count when its index is new, and the row is appended to the cell's local
  indices. The line that would append a global id is commented out in the source, so
  \<^const>\<open>gindices\<close> is not touched.
\<close>

definition NNPS_bin_particle ::
  "real \<Rightarrow> nat \<Rightarrow> real list \<Rightarrow> real list \<Rightarrow> nat \<Rightarrow> nat
     \<Rightarrow> (cIntPoint \<times> Cell) list \<Rightarrow> error + (cIntPoint \<times> Cell) list" where
  "NNPS_bin_particle cell_size n x y pa_index i cells =
     (if i < length x \<and> i < length y then
        (let pnt = cPoint_new (x ! i) (y ! i) 0;
             cid = find_cell_id pnt cell_size;
             cells' = (if has_key cells cid then cells
                       else dict_insert cid (Cell_init cid cell_size n Cell_default_layers) cells)
         in Inr (dict_update cid
                   (\<lambda>cell. cell\<lparr> lindices :=
                              (lindices cell)[pa_index := lindices cell ! pa_index @ [i]] \<rparr>)
                   cells'))
      else Inl OutOfBounds)"

definition NNPS_bin :: "NNPS \<Rightarrow> nat \<Rightarrow> nat list \<Rightarrow> error + NNPS" where
  "NNPS_bin s pa_index indices =
     (if pa_index < length (nnps_pa_wrappers s) then
        (let w = nnps_pa_wrappers s ! pa_index in
         bind_err
           (fold_err (NNPS_bin_particle (nnps_cell_size s) (nnps_narrays s) (w_x w) (w_y w) pa_index)
              indices (nnps_cells s))
           (\<lambda>cells. Inr (s\<lparr> nnps_cells := cells \<rparr>)))
      else Inl IndexError)"

definition NNPS_update :: "NNPS \<Rightarrow> error + NNPS" where
  "NNPS_update s =
     fold_err
       (\<lambda>i s'. if i < length (nnps_particles s')
                then NNPS_bin s' i
                       (arange_uint (int (get_number_of_particles (nnps_particles s' ! i))) (-1))
                else Inl IndexError)
       [0 ..< nnps_narrays s]
       (NNPS_compute_cell_size (s\<lparr> nnps_cells := [] \<rparr>))"

text \<open>
  The constructor takes \<^verbatim>\<open>ghost_layers\<close> and never reads it. A cdef attribute
  starts at zero, which is the cell size before the first update.
\<close>

definition NNPS_init ::
  "int \<Rightarrow> ParticleArray list \<Rightarrow> real \<Rightarrow> int \<Rightarrow> DomainLimits option \<Rightarrow> error + NNPS" where
  "NNPS_init dimension particles radius_scale ghost_layers domain =
     bind_err (map_err NNPSParticleArrayWrapper_init particles) (\<lambda>ws.
     bind_err (case domain of
                 Some d \<Rightarrow> Inr d
               | None \<Rightarrow> DomainLimits_init dimension (-1000) 1000 0 0 0 0 False) (\<lambda>dom.
       NNPS_update
         \<lparr> nnps_particles = particles,
           nnps_narrays = length particles,
           nnps_pa_wrappers = ws,
           nnps_radius_scale = radius_scale,
           nnps_dim = dimension,
           nnps_domain = dom,
           nnps_cells = [],
           nnps_cell_size = 0,
           nnps_console = \<lparr> stdout = [], stderr = [] \<rparr> \<rparr>))"

text \<open>
  Modelled from the spec: \<^verbatim>\<open>resize\<close>, of the array class, on the output array
  of a neighbour query keeps the old entries and leaves the new slots uninitialised;
  the model fills them with zero, and the query writes a slot before it counts it.
\<close>

definition UIntArray_resize :: "nat \<Rightarrow> nat list \<Rightarrow> nat list" where
  "UIntArray_resize n xs = take n xs @ replicate (n - length xs) 0"

text \<open>
  The body of the innermost loop of \<^verbatim>\<open>get_nearest_particles\<close> for the source
  row \<open>j\<close>; the state is the output array, the neighbour count and the console. The
  serial search reads the z coordinate of the source row (\<open>Some\<close> of the array); the
  parallel manager puts 0 in its place (\<open>None\<close>).
\<close>

definition nearest_step ::
  "(nat \<Rightarrow> message) \<Rightarrow> real list \<Rightarrow> real list \<Rightarrow> real list option \<Rightarrow> real list \<Rightarrow> cPoint \<Rightarrow> real \<Rightarrow> real
     \<Rightarrow> nat \<Rightarrow> nat list \<times> nat \<times> console \<Rightarrow> error + nat list \<times> nat \<times> console" where
  "nearest_step msg s_x s_y s_z s_h xi hi radius_scale j st =
     (case st of (nbrs, nnbrs, con) \<Rightarrow>
        if j < length s_x \<and> j < length s_y \<and> j < length s_h
           \<and> (case s_z of None \<Rightarrow> True | Some zs \<Rightarrow> j < length zs) then
          (let xj = cPoint_new (s_x ! j) (s_y ! j) (case s_z of None \<Rightarrow> 0 | Some zs \<Rightarrow> zs ! j);
               xij = cPoint_distance xi xj;
               hj = radius_scale * s_h ! j
           in if xij < hi \<or> xij < hj then
                (let grown = (nnbrs = length nbrs);
                     nbrs' = (if grown then UIntArray_resize (length nbrs + 50) nbrs else nbrs);
                     con' = (if grown then print (msg (length nbrs')) con else con)
                 in Inr (nbrs'[nnbrs := j], nnbrs + 1, con'))
              else Inr st)
        else Inl OutOfBounds)"

text \<open>The nine cell indices visited around a cell, in the order of the two loops.\<close>

definition neighbor_cellids :: "cIntPoint \<Rightarrow> cIntPoint list" where
  "neighbor_cellids cid =
     concat (map (\<lambda>ix. map (\<lambda>iy. cIntPoint ix iy 0) [ip_y cid - 1, ip_y cid, ip_y cid + 1])
               [ip_x cid - 1, ip_x cid, ip_x cid + 1])"

definition nearest_cell ::
  "(nat \<Rightarrow> message) \<Rightarrow> (cIntPoint \<times> Cell) list \<Rightarrow> nat
     \<Rightarrow> real list \<Rightarrow> real list \<Rightarrow> real list option \<Rightarrow> real list
     \<Rightarrow> cPoint \<Rightarrow> real \<Rightarrow> real
     \<Rightarrow> cIntPoint \<Rightarrow> nat list \<times> nat \<times> console \<Rightarrow> error + nat list \<times> nat \<times> console" where
  "nearest_cell msg cells src_index s_x s_y s_z s_h xi hi radius_scale cellid st =
     (case map_of cells cellid of
        None \<Rightarrow> Inr st
      | Some cell \<Rightarrow>
          if src_index < length (lindices cell)
          then fold_err (nearest_step msg s_x s_y s_z s_h xi hi radius_scale)
                 (lindices cell ! src_index) st
          else Inl IndexError)"

definition NNPS_get_nearest_particles ::
  "NNPS \<Rightarrow> nat \<Rightarrow> nat \<Rightarrow> nat \<Rightarrow> nat list \<Rightarrow> error + nat list \<times> NNPS" where
  "NNPS_get_nearest_particles s src_index dst_index d_idx nbrs =
     (if src_index < length (nnps_pa_wrappers s) \<and> dst_index < length (nnps_pa_wrappers s) then
        (let src = nnps_pa_wrappers s ! src_index;
             dst = nnps_pa_wrappers s ! dst_index
         in if d_idx < length (w_x dst) \<and> d_idx < length (w_y dst)
               \<and> d_idx < length (w_z dst) \<and> d_idx < length (w_h dst) then
              (let xi = cPoint_new (w_x dst ! d_idx) (w_y dst ! d_idx) (w_z dst ! d_idx);
                   cid = find_cell_id xi (nnps_cell_size s);
                   hi = nnps_radius_scale s * w_h dst ! d_idx
               in bind_err
                    (fold_err
                       (nearest_cell NNPSExtending (nnps_cells s) src_index
                          (w_x src) (w_y src) (Some (w_z src)) (w_h src) xi hi (nnps_radius_scale s))
                       (neighbor_cellids cid) (nbrs, 0, nnps_console s))
                    (\<lambda>(nbrs', nnbrs, con). Inr (take nnbrs nbrs', s\<lparr> nnps_console := con \<rparr>)))
            else Inl OutOfBounds)
      else Inl IndexError)"

text \<open>
  \<^verbatim>\<open>brute_force_neighbors\<close>: the loop bound is the length of the destination's
  \<^verbatim>\<open>x\<close> array, the destination's radius is scaled and the source's is not, and
  squared quantities are compared.
\<close>

definition brute_force_step ::
  "real list \<Rightarrow> real list \<Rightarrow> real list \<Rightarrow> real list \<Rightarrow> real \<Rightarrow> real \<Rightarrow> real \<Rightarrow> real
     \<Rightarrow> nat \<Rightarrow> nat list \<Rightarrow> error + nat list" where
  "brute_force_step s_x s_y s_z s_h xi yi zi hi2 j nbrs =
     (if j < length s_x \<and> j < length s_y \<and> j < length s_z \<and> j < length s_h then
        (let xj = s_x ! j; yj = s_y ! j; zj = s_z ! j; hj = s_h ! j;
             xij2 = (xi - xj) * (xi - xj) + (yi - yj) * (yi - yj) + (zi - zj) * (zi - zj);
             hj2 = hj * hj
         in if xij2 < hi2 \<or> xij2 < hj2 then Inr (nbrs @ [j]) else Inr nbrs)
      else Inl OutOfBounds)"

definition brute_force_neighbors ::
  "NNPS \<Rightarrow> nat \<Rightarrow> nat \<Rightarrow> nat \<Rightarrow> nat list \<Rightarrow> error + nat list" where
  "brute_force_neighbors s src_index dst_index d_idx nbrs =
     (if src_index < length (nnps_pa_wrappers s) \<and> dst_index < length (nnps_pa_wrappers s) then
        (let src = nnps_pa_wrappers s ! src_index;
             dst = nnps_pa_wrappers s ! dst_index;
             num_particles = length (w_x dst)
         in if d_idx < length (w_x dst) \<and> d_idx < length (w_y dst)
               \<and> d_idx < length (w_z dst) \<and> d_idx < length (w_h dst) then
              (let xi = w_x dst ! d_idx; yi = w_y dst ! d_idx; zi = w_z dst ! d_idx;
                   hi = w_h dst ! d_idx * nnps_radius_scale s;
                   hi2 = hi * hi
               in fold_err (brute_force_step (w_x src) (w_y src) (w_z src) (w_h src) xi yi zi hi2)
                    [0 ..< num_particles] [])
            else Inl OutOfBounds)
      else Inl IndexError)"

section \<open>Particle arrays under exchange\<close>

text \<open>
  Modelled from the spec: the particle tags, of a utility module that is not among the
  source files, classify a row as Local (0), Remote or Ghost, numbered in that order.
\<close>

definition Local :: int where
  "Local = 0"

definition Remote :: int where
  "Remote = 1"

definition Ghost :: int where
  "Ghost = 2"

text \<open>
  Modelled from the spec: \<^verbatim>\<open>resize\<close>, of the particle array class, keeps the
  existing rows in place and leaves the new rows uninitialised; their content is
  whatever \<open>garbage\<close> holds at that position.
\<close>

record garbage =
  g_double :: "nat \<Rightarrow> real"
  g_uint :: "nat \<Rightarrow> nat"
  g_int :: "nat \<Rightarrow> int"

definition resize_list :: "(nat \<Rightarrow> 'a) \<Rightarrow> nat \<Rightarrow> 'a list \<Rightarrow> 'a list" where
  "resize_list g n xs = take n xs @ map g [length xs ..< n]"

fun carray_resize :: "garbage \<Rightarrow> nat \<Rightarrow> carray \<Rightarrow> carray" where
  "carray_resize g n (DoubleArray xs) = DoubleArray (resize_list (g_double g) n xs)"
| "carray_resize g n (UIntArray xs) = UIntArray (resize_list (g_uint g) n xs)"
| "carray_resize g n (IntArray xs) = IntArray (resize_list (g_int g) n xs)"
| "carray_resize g n (LongArray xs) = LongArray (resize_list (g_int g) n xs)"

definition pa_resize :: "garbage \<Rightarrow> nat \<Rightarrow> ParticleArray \<Rightarrow> ParticleArray" where
  "pa_resize g n pa = (\<lambda>name. map_option (carray_resize g n) (pa name))"

text \<open>
  Modelled from the spec: \<^verbatim>\<open>remove_particles\<close>, of the particle array class,
  drops the listed rows in one pass and keeps the order of the other rows.
\<close>

definition select_rows :: "nat list \<Rightarrow> 'a list \<Rightarrow> 'a list" where
  "select_rows rows xs = map (\<lambda>i. xs ! i) rows"

fun carray_select :: "nat list \<Rightarrow> carray \<Rightarrow> carray" where
  "carray_select rows (DoubleArray xs) = DoubleArray (select_rows rows xs)"
| "carray_select rows (UIntArray xs) = UIntArray (select_rows rows xs)"
| "carray_select rows (IntArray xs) = IntArray (select_rows rows xs)"
| "carray_select rows (LongArray xs) = LongArray (select_rows rows xs)"

definition kept_rows :: "nat list \<Rightarrow> nat \<Rightarrow> nat list" where
  "kept_rows ids n = filter (\<lambda>i. i \<notin> set ids) [0 ..< n]"

definition remove_particles :: "nat list \<Rightarrow> ParticleArray \<Rightarrow> ParticleArray" where
  "remove_particles ids pa =
     (\<lambda>name. map_option (\<lambda>c. carray_select (kept_rows ids (carray_length c)) c) (pa name))"

text \<open>
  Modelled from the spec: \<^verbatim>\<open>align_particles\<close>, of the particle array class, is
  a stable reordering of the rows by tag: Local before Remote before Ghost.
\<close>

definition align_particles :: "ParticleArray \<Rightarrow> error + ParticleArray" where
  "align_particles pa =
     bind_err (get_int pa ''tag'') (\<lambda>tags.
       Inr (\<lambda>name. map_option
                      (carray_select (sort_key (\<lambda>i. tags ! i) [0 ..< length tags]))
                      (pa name)))"

text \<open>
  \<^verbatim>\<open>ParticleArrayWrapper\<close> caches the eighteen load-balancing arrays of a
  particle array. The cached arrays are the particle array's own objects, so the
  wrapper is read off the current particle array wherever the source reads a field of
  it.
\<close>

record ParticleArrayWrapper =
  pw_x :: "real list"
  pw_y :: "real list"
  pw_z :: "real list"
  pw_ax :: "real list"
  pw_ay :: "real list"
  pw_az :: "real list"
  pw_u :: "real list"
  pw_v :: "real list"
  pw_w :: "real list"
  pw_au :: "real list"
  pw_av :: "real list"
  pw_aw :: "real list"
  pw_rho :: "real list"
  pw_arho :: "real list"
  pw_h :: "real list"
  pw_m :: "real list"
  pw_gid :: "nat list"
  pw_tag :: "int list"

definition ParticleArrayWrapper_init :: "ParticleArray \<Rightarrow> error + ParticleArrayWrapper" where
  "ParticleArrayWrapper_init pa =
     bind_err (get_double pa ''x'') (\<lambda>x.
     bind_err (get_double pa ''y'') (\<lambda>y.
     bind_err (get_double pa ''z'') (\<lambda>z.
     bind_err (get_double pa ''ax'') (\<lambda>ax.
     bind_err (get_double pa ''ay'') (\<lambda>ay.
     bind_err (get_double pa ''az'') (\<lambda>az.
     bind_err (get_double pa ''u'') (\<lambda>u.
     bind_err (get_double pa ''v'') (\<lambda>v.
     bind_err (get_double pa ''w'') (\<lambda>w.
     bind_err (get_double pa ''au'') (\<lambda>au.
     bind_err (get_double pa ''av'') (\<lambda>av.
     bind_err (get_double pa ''aw'') (\<lambda>aw.
     bind_err (get_double pa ''rho'') (\<lambda>rho.
     bind_err (get_double pa ''arho'') (\<lambda>arho.
     bind_err (get_double pa ''h'') (\<lambda>h.
     bind_err (get_double pa ''m'') (\<lambda>m.
     bind_err (get_uint pa ''gid'') (\<lambda>gid.
     bind_err (get_int pa ''tag'') (\<lambda>tag.
       Inr \<lparr> pw_x = x, pw_y = y, pw_z = z, pw_ax = ax, pw_ay = ay, pw_az = az,
             pw_u = u, pw_v = v, pw_w = w, pw_au = au, pw_av = av, pw_aw = aw,
             pw_rho = rho, pw_arho = arho, pw_h = h, pw_m = m,
             pw_gid = gid, pw_tag = tag \<rparr>))))))))))))))))))"

text \<open>The communicator, as far as the source reads it: this rank and the number of ranks.\<close>

record comm =
  comm_rank :: nat
  comm_size :: nat

section \<open>Particle array exchange\<close>

record ParticleArrayExchange =
  pae_pa :: ParticleArray
  pae_rank :: nat
  pae_size :: nat
  pae_num_local :: int
  pae_num_remote :: int
  pae_num_global :: int
  pae_num_ghost :: int
  exportParticleGlobalids :: "nat list"
  exportParticleLocalids :: "nat list"
  exportParticleProcs :: "int list"
  numParticleExport :: int
  importParticleGlobalids :: "nat list"
  importParticleLocalids :: "nat list"
  importParticleProcs :: "int list"
  numParticleImport :: int
  pae_lb_props :: "string list"

definition default_lb_props :: "string list" where
  "default_lb_props =
     [''x'', ''y'', ''z'', ''ax'', ''ay'', ''az'', ''u'', ''v'', ''w'', ''au'', ''av'', ''aw'',
      ''rho'', ''arho'', ''m'', ''h'', ''gid'', ''tag'']"

definition ParticleArrayExchange_init ::
  "ParticleArray \<Rightarrow> comm \<Rightarrow> string list option \<Rightarrow> error + ParticleArrayExchange" where
  "ParticleArrayExchange_init pa c lb_props =
     bind_err (ParticleArrayWrapper_init pa) (\<lambda>_.
       Inr \<lparr> pae_pa = pa,
             pae_rank = comm_rank c,
             pae_size = comm_size c,
             pae_num_local = int (get_number_of_particles pa),
             pae_num_remote = 0,
             pae_num_global = 0,
             pae_num_ghost = 0,
             exportParticleGlobalids = [],
             exportParticleLocalids = [],
             exportParticleProcs = [],
             numParticleExport = 0,
             importParticleGlobalids = [],
             importParticleLocalids = [],
             importParticleProcs = [],
             numParticleImport = 0,
             pae_lb_props = (case lb_props of None \<Rightarrow> default_lb_props | Some ps \<Rightarrow> ps) \<rparr>)"

text \<open>
  \<^verbatim>\<open>set_tag\<close>: the item assignment \<^verbatim>\<open>tag[i] = value\<close> is an unchecked write
  and the loop returns normally whatever the range. A write at an index outside the
  array lands in memory that is not the array, so it leaves the array as it is.
\<close>

definition set_tag :: "int \<Rightarrow> int \<Rightarrow> int \<Rightarrow> ParticleArray \<Rightarrow> error + ParticleArray" where
  "set_tag start stop v pa =
     bind_err (get_int pa ''tag'') (\<lambda>tags.
       Inr (pa(''tag'' \<mapsto> IntArray
              (fold (\<lambda>i t. if 0 \<le> i \<and> i < int (length t) then t[nat i := v] else t)
                 [start .. stop - 1] tags))))"

text \<open>
  Modelled from the spec: \<^verbatim>\<open>count_recv_data\<close>, of a utility module that is not
  among the source files, leaves a rank knowing, for each source rank of its import
  list, how many rows it will receive.
\<close>

definition count_recv_data :: "int \<Rightarrow> int list \<Rightarrow> (int \<times> int) list" where
  "count_recv_data numImport importProcs =
     (let procs = take (nat numImport) importProcs
      in map (\<lambda>p. (p, int (count_list procs p))) (sort (remdups procs)))"

text \<open>
  Modelled from the spec: \<^verbatim>\<open>Recv\<close>, of the same utility module, takes a source
  rank's contribution for one property and writes it into the local array at the
  write cursor; a contribution whose size differs from the expected count is fatal.
\<close>

definition write_at :: "nat \<Rightarrow> 'a list \<Rightarrow> 'a list \<Rightarrow> error + 'a list" where
  "write_at pos buf xs =
     (if pos + length buf \<le> length xs
      then Inr (take pos xs @ buf @ drop (pos + length buf) xs)
      else Inl OutOfBounds)"

fun carray_write :: "nat \<Rightarrow> carray \<Rightarrow> carray \<Rightarrow> error + carray" where
  "carray_write pos (DoubleArray buf) (DoubleArray xs) =
     bind_err (write_at pos buf xs) (\<lambda>ys. Inr (DoubleArray ys))"
| "carray_write pos (UIntArray buf) (UIntArray xs) =
     bind_err (write_at pos buf xs) (\<lambda>ys. Inr (UIntArray ys))"
| "carray_write pos (IntArray buf) (IntArray xs) =
     bind_err (write_at pos buf xs) (\<lambda>ys. Inr (IntArray ys))"
| "carray_write pos (LongArray buf) (LongArray xs) =
     bind_err (write_at pos buf xs) (\<lambda>ys. Inr (LongArray ys))"
| "carray_write pos buf xs = Inl TypeError"

definition Recv :: "carray \<Rightarrow> int \<Rightarrow> int \<Rightarrow> string \<Rightarrow> ParticleArray \<Rightarrow> error + ParticleArray" where
  "Recv contribution expected localbufsize prop pa =
     (case pa prop of
        None \<Rightarrow> Inl KeyError
      | Some localbuf \<Rightarrow>
          if int (carray_length contribution) \<noteq> expected then Inl SizeMismatch
          else if localbufsize < 0 then Inl OutOfBounds
          else bind_err (carray_write (nat localbufsize) contribution localbuf)
                 (\<lambda>c. Inr (pa(prop \<mapsto> c))))"

text \<open>
  One turn of a receive loop of \<^verbatim>\<open>_exchange_data\<close>: every property of the source
  rank's contribution is written at the cursor, then the cursor moves on.
  \<open>incoming src prop\<close> is what rank \<open>src\<close> sends for the property.
\<close>

definition recv_from ::
  "(int \<Rightarrow> string \<Rightarrow> carray) \<Rightarrow> string list \<Rightarrow> int \<times> int \<Rightarrow> int \<times> ParticleArray
     \<Rightarrow> error + int \<times> ParticleArray" where
  "recv_from incoming props src st =
     (case st of (cnt, pa) \<Rightarrow>
        bind_err (fold_err (\<lambda>prop. Recv (incoming (fst src) prop) (snd src) cnt prop) props pa)
          (\<lambda>pa'. Inr (cnt + snd src, pa')))"

text \<open>
  \<^verbatim>\<open>_exchange_data\<close>: lower ranks are received first, then the sends go out (they
  do not change the local array), then higher ranks are received. The properties are
  the keys of a dict built from \<^verbatim>\<open>lb_props\<close>.
\<close>

definition exchange_data ::
  "(int \<Rightarrow> string \<Rightarrow> carray) \<Rightarrow> int \<Rightarrow> (int \<times> int) list \<Rightarrow> ParticleArrayExchange
     \<Rightarrow> error + ParticleArrayExchange" where
  "exchange_data incoming cnt recv e =
     (let props = remdups (pae_lb_props e)
      in bind_err (fold_err (\<lambda>prop _. case pae_pa e prop of None \<Rightarrow> Inl KeyError
                                                           | Some _ \<Rightarrow> Inr ()) props ()) (\<lambda>_.
         bind_err (fold_err (recv_from incoming props)
                     (filter (\<lambda>src. fst src < int (pae_rank e)) recv) (cnt, pae_pa e)) (\<lambda>st1.
         bind_err (fold_err (recv_from incoming props)
                     (filter (\<lambda>src. fst src > int (pae_rank e)) recv) st1) (\<lambda>st2.
           Inr (e\<lparr> pae_pa := snd st2 \<rparr>)))))"

text \<open>
  The state of \<^verbatim>\<open>lb_exchange_data\<close> when it calls \<^verbatim>\<open>_exchange_data\<close>: the
  exported rows are removed, the array is resized and the tags of the new rows are set.
\<close>

definition lb_prepare :: "garbage \<Rightarrow> ParticleArrayExchange \<Rightarrow> error + ParticleArrayExchange" where
  "lb_prepare g e =
     (let current_size = pae_num_local e;
          newsize = current_size - numParticleExport e + numParticleImport e;
          cnt = current_size - numParticleExport e;
          pa1 = remove_particles (exportParticleLocalids e) (pae_pa e);
          pa2 = pa_resize g (nat newsize) pa1
      in bind_err (set_tag cnt newsize 0 pa2) (\<lambda>pa3. Inr (e\<lparr> pae_pa := pa3 \<rparr>)))"

definition lb_exchange_data ::
  "garbage \<Rightarrow> (int \<Rightarrow> string \<Rightarrow> carray) \<Rightarrow> ParticleArrayExchange \<Rightarrow> error + ParticleArrayExchange" where
  "lb_exchange_data g incoming e =
     (let recv = count_recv_data (numParticleImport e) (importParticleProcs e);
          current_size = pae_num_local e;
          newsize = current_size - numParticleExport e + numParticleImport e;
          cnt = current_size - numParticleExport e
      in bind_err (lb_prepare g e) (\<lambda>e1.
         bind_err (exchange_data incoming cnt recv e1) (\<lambda>e2.
           Inr (e2\<lparr> pae_num_local := newsize \<rparr>))))"

definition remote_prepare :: "garbage \<Rightarrow> ParticleArrayExchange \<Rightarrow> error + ParticleArrayExchange" where
  "remote_prepare g e =
     (let current_size = pae_num_local e;
          newsize = current_size + numParticleImport e;
          cnt = current_size;
          pa1 = pa_resize g (nat newsize) (pae_pa e)
      in bind_err (set_tag cnt newsize 0 pa1) (\<lambda>pa2. Inr (e\<lparr> pae_pa := pa2 \<rparr>)))"

definition remote_exchange_data ::
  "garbage \<Rightarrow> (int \<Rightarrow> string \<Rightarrow> carray) \<Rightarrow> ParticleArrayExchange \<Rightarrow> error + ParticleArrayExchange" where
  "remote_exchange_data g incoming e =
     (let recv = count_recv_data (numParticleImport e) (importParticleProcs e);
          current_size = pae_num_local e;
          newsize = current_size + numParticleImport e;
          cnt = current_size
      in bind_err (remote_prepare g e) (\<lambda>e1.
         bind_err (exchange_data incoming cnt recv e1) (\<lambda>e2.
           Inr (e2\<lparr> pae_num_remote := newsize - current_size \<rparr>))))"

definition pae_remove_remote_particles ::
  "garbage \<Rightarrow> ParticleArrayExchange \<Rightarrow> error + ParticleArrayExchange" where
  "pae_remove_remote_particles g e =
     bind_err (align_particles (pa_resize g (nat (pae_num_local e)) (pae_pa e))) (\<lambda>pa.
       Inr (e\<lparr> pae_pa := pa, pae_num_remote := 0 \<rparr>))"

text \<open>
  Modelled from the spec: \<^verbatim>\<open>get_num_objects_per_proc\<close>, of the partitioner's
  utilities, which are not among the source files, is an Allgather of the per-rank
  local counts; \<open>world\<close> holds what the ranks report, and this rank reports its own
  count.
\<close>

definition get_num_objects_per_proc :: "int list \<Rightarrow> nat \<Rightarrow> int \<Rightarrow> int list" where
  "get_num_objects_per_proc world r num_local = world[r := num_local]"

text \<open>
  \<^verbatim>\<open>update_particle_gids\<close>. The two sums are numpy sums stored in C ints, which
  raises when the sum does not fit; the cast of \<^verbatim>\<open>_sum + i\<close> to an unsigned int
  wraps.
\<close>

definition to_c_int :: "int \<Rightarrow> error + int" where
  "to_c_int n = (if - (2 ^ 31) \<le> n \<and> n < 2 ^ 31 then Inr n else Inl OverflowError)"

definition update_particle_gids ::
  "int list \<Rightarrow> ParticleArrayExchange \<Rightarrow> error + ParticleArrayExchange" where
  "update_particle_gids world e =
     bind_err (get_uint (pae_pa e) ''gid'') (\<lambda>_.
       let num_objects_data = get_num_objects_per_proc world (pae_rank e) (pae_num_local e)
       in if pae_rank e < length num_objects_data then
            bind_err (to_c_int (num_objects_data ! pae_rank e)) (\<lambda>num_local_objects.
            bind_err (to_c_int (sum_list num_objects_data)) (\<lambda>num_global_objects.
            bind_err (to_c_int (sum_list (take (pae_rank e) num_objects_data))) (\<lambda>s.
              Inr (e\<lparr> pae_pa := (pae_pa e)(''gid'' \<mapsto>
                         UIntArray (map (\<lambda>i. nat ((s + int i) mod 2 ^ 32))
                                      [0 ..< nat num_local_objects])),
                      pae_num_global := num_global_objects \<rparr>))))
          else Inl IndexError)"

text \<open>
  All ranks together: rank \<open>r\<close> holds the \<open>r\<close>-th exchange object, and the Allgather
  hands every rank the local counts of all of them.
\<close>

definition update_particle_gids_all ::
  "ParticleArrayExchange list \<Rightarrow> (error + ParticleArrayExchange) list" where
  "update_particle_gids_all es = map (update_particle_gids (map pae_num_local es)) es"

section \<open>The parallel manager\<close>

text \<open>
  The extrema of the coordinates and of the smoothing length: the seven local values
  a rank sends to the reductions, and the seven global values it stores afterwards.
\<close>

record bounds =
  b_mx :: real
  b_my :: real
  b_mz :: real
  b_Mx :: real
  b_My :: real
  b_Mz :: real
  b_Mh :: real

record ParallelManager =
  pm_narrays :: nat
  pm_pa_exchanges :: "ParticleArrayExchange list"
  pm_num_local :: "int list"
  pm_num_global :: "int list"
  pm_num_remote :: "int list"
  pm_local_bounds :: bounds
  pm_global_bounds :: bounds
  pm_in_parallel :: bool
  pm_rank :: nat
  pm_size :: nat
  pm_cells :: "(cIntPoint \<times> Cell) list"
  pm_radius_scale :: real
  pm_ghost_layers :: int
  pm_cell_size :: real
  pm_console :: console

definition lower :: "real option \<Rightarrow> real \<Rightarrow> real" where
  "lower m cur = (case m of None \<Rightarrow> cur | Some a \<Rightarrow> if a < cur then a else cur)"

definition higher :: "real option \<Rightarrow> real \<Rightarrow> real" where
  "higher m cur = (case m of None \<Rightarrow> cur | Some a \<Rightarrow> if a > cur then a else cur)"

definition local_bounds_step :: "ParticleArrayWrapper \<Rightarrow> bounds \<Rightarrow> bounds" where
  "local_bounds_step pa b =
     (if length (pw_x pa) > 0 then
        \<lparr> b_mx = lower (minimum (pw_x pa)) (b_mx b),
          b_my = lower (minimum (pw_y pa)) (b_my b),
          b_mz = lower (minimum (pw_z pa)) (b_mz b),
          b_Mx = higher (maximum (pw_x pa)) (b_Mx b),
          b_My = higher (maximum (pw_y pa)) (b_My b),
          b_Mz = higher (maximum (pw_z pa)) (b_Mz b),
          b_Mh = higher (maximum (pw_h pa)) (b_Mh b) \<rparr>
      else b)"

definition initial_bounds :: bounds where
  "initial_bounds =
     \<lparr> b_mx = 10 ^ 20, b_my = 10 ^ 20, b_mz = 10 ^ 20,
       b_Mx = - (10 ^ 20), b_My = - (10 ^ 20), b_Mz = - (10 ^ 20), b_Mh = - (10 ^ 20) \<rparr>"

text \<open>
  Modelled from the spec: \<^verbatim>\<open>Allreduce\<close>, of the message passing library, hands
  every rank the minimum, or the maximum, of what all ranks sent; \<open>others\<close> holds
  what the other ranks sent.
\<close>

definition Allreduce :: "(real \<Rightarrow> real \<Rightarrow> real) \<Rightarrow> real \<Rightarrow> real list \<Rightarrow> real" where
  "Allreduce opr own others = fold opr others own"

text \<open>
  \<^verbatim>\<open>_compute_bounds\<close>. The receive buffers of the reductions are assigned only
  inside \<^verbatim>\<open>if self.in_parallel\<close> and read after it, so on a single rank the
  read of \<^verbatim>\<open>_minx\<close> raises.
\<close>

definition compute_bounds :: "bounds list \<Rightarrow> ParallelManager \<Rightarrow> error + ParallelManager" where
  "compute_bounds peers s =
     bind_err (map_err (\<lambda>e. ParticleArrayWrapper_init (pae_pa e)) (pm_pa_exchanges s)) (\<lambda>ws.
       let b = fold local_bounds_step ws initial_bounds;
           s1 = s\<lparr> pm_local_bounds := b \<rparr>
       in if pm_in_parallel s1 then
            Inr (s1\<lparr> pm_global_bounds :=
                       \<lparr> b_mx = Allreduce min (b_mx b) (map b_mx peers),
                         b_my = Allreduce min (b_my b) (map b_my peers),
                         b_mz = Allreduce min (b_mz b) (map b_mz peers),
                         b_Mx = Allreduce max (b_Mx b) (map b_Mx peers),
                         b_My = Allreduce max (b_My b) (map b_My peers),
                         b_Mz = Allreduce max (b_Mz b) (map b_Mz peers),
                         b_Mh = Allreduce max (b_Mh b) (map b_Mh peers) \<rparr> \<rparr>)
          else Inl UnboundLocalError)"

definition compute_cell_size :: "bounds list \<Rightarrow> ParallelManager \<Rightarrow> error + ParallelManager" where
  "compute_cell_size peers s =
     bind_err (compute_bounds peers s) (\<lambda>s1.
       let hmax = b_Mh (pm_global_bounds s1);
           cell_size = pm_radius_scale s1 * hmax
       in if cell_size < 1 / 1000000
          then Inr (s1\<lparr> pm_console := print (CellSizeTooSmall cell_size) (pm_console s1),
                        pm_cell_size := 1 \<rparr>)
          else Inr (s1\<lparr> pm_cell_size := cell_size \<rparr>))"

text \<open>
  One turn of the loop of \<^verbatim>\<open>ParallelManager._bin\<close>: a new cell gets the manager's
  ghost layers, and the row and its global id are appended to the cell's index lists.
\<close>

definition bin_particle ::
  "real \<Rightarrow> nat \<Rightarrow> int \<Rightarrow> real list \<Rightarrow> real list \<Rightarrow> nat list \<Rightarrow> nat \<Rightarrow> nat
     \<Rightarrow> (cIntPoint \<times> Cell) list \<Rightarrow> error + (cIntPoint \<times> Cell) list" where
  "bin_particle cell_size n lyrs x y gid pa_index i cells =
     (if i < length x \<and> i < length y \<and> i < length gid then
        (let pnt = cPoint_new (x ! i) (y ! i) 0;
             cid = find_cell_id pnt cell_size;
             cells' = (if has_key cells cid then cells
                       else dict_insert cid (Cell_init cid cell_size n lyrs) cells)
         in Inr (dict_update cid
                   (\<lambda>cell. cell\<lparr> lindices :=
                              (lindices cell)[pa_index := lindices cell ! pa_index @ [i]],
                            gindices :=
                              (gindices cell)[pa_index := gindices cell ! pa_index @ [gid ! i]] \<rparr>)
                   cells'))
      else Inl OutOfBounds)"

definition bin :: "ParallelManager \<Rightarrow> nat \<Rightarrow> nat list \<Rightarrow> error + ParallelManager" where
  "bin s pa_index indices =
     (if pa_index < length (pm_pa_exchanges s) then
        bind_err (ParticleArrayWrapper_init (pae_pa (pm_pa_exchanges s ! pa_index))) (\<lambda>w.
        bind_err
          (fold_err (bin_particle (pm_cell_size s) (pm_narrays s) (pm_ghost_layers s)
                       (pw_x w) (pw_y w) (pw_gid w) pa_index)
             indices (pm_cells s))
          (\<lambda>cells. Inr (s\<lparr> pm_cells := cells \<rparr>)))
      else Inl IndexError)"

definition local_bin :: "bounds list \<Rightarrow> ParallelManager \<Rightarrow> error + ParallelManager" where
  "local_bin peers s =
     bind_err (compute_cell_size peers (s\<lparr> pm_cells := [] \<rparr>)) (\<lambda>s1.
       fold_err
         (\<lambda>i s'. if i < length (pm_num_local s')
                  then bin s' i (arange_uint (pm_num_local s' ! i) (-1))
                  else Inl IndexError)
         [0 ..< pm_narrays s1] s1)"

definition update_local_data :: "ParallelManager \<Rightarrow> error + ParallelManager" where
  "update_local_data s =
     fold_err
       (\<lambda>i s'. if i < length (pm_pa_exchanges s') \<and> i < length (pm_num_local s')
                   \<and> i < length (pm_num_global s') then
                  (let pa_exchange = pm_pa_exchanges s' ! i;
                       num_particles = pae_num_local pa_exchange
                   in bin (s'\<lparr> pm_num_local := (pm_num_local s')[i := pae_num_local pa_exchange],
                                pm_num_global := (pm_num_global s')[i := pae_num_global pa_exchange] \<rparr>)
                        i (arange_uint num_particles (-1)))
                else Inl IndexError)
       [0 ..< pm_narrays s] (s\<lparr> pm_cells := [] \<rparr>)"

definition update_remote_data :: "ParallelManager \<Rightarrow> error + ParallelManager" where
  "update_remote_data s =
     fold_err
       (\<lambda>i s'. if i < length (pm_pa_exchanges s') \<and> i < length (pm_num_local s')
                   \<and> i < length (pm_num_remote s') then
                  (let pa_exchange = pm_pa_exchanges s' ! i;
                       num_local = pae_num_local pa_exchange;
                       num_remote = pae_num_remote pa_exchange
                   in bin (s'\<lparr> pm_num_local := (pm_num_local s')[i := num_local],
                                pm_num_remote := (pm_num_remote s')[i := num_remote] \<rparr>)
                        i (arange_uint num_local (num_local + num_remote)))
                else Inl IndexError)
       [0 ..< pm_narrays s] s"

definition remove_remote_particles :: "garbage \<Rightarrow> ParallelManager \<Rightarrow> error + ParallelManager" where
  "remove_remote_particles g s =
     fold_err
       (\<lambda>i s'. if i < length (pm_pa_exchanges s') \<and> i < length (pm_num_local s')
                   \<and> i < length (pm_num_remote s') then
                  bind_err (pae_remove_remote_particles g (pm_pa_exchanges s' ! i)) (\<lambda>pa_exchange.
                    Inr (s'\<lparr> pm_pa_exchanges := (pm_pa_exchanges s')[i := pa_exchange],
                             pm_num_local := (pm_num_local s')[i := pae_num_local pa_exchange],
                             pm_num_remote := (pm_num_remote s')[i := pae_num_remote pa_exchange] \<rparr>))
                else Inl IndexError)
       [0 ..< pm_narrays s] s"

text \<open>
  The constructor. The cell import and export lists set up by \<^verbatim>\<open>_setup_arrays\<close>
  and the cell coordinate arrays are read by the partitioner only and are left out.
  The cdef attributes that the constructor does not assign start at zero.
\<close>

definition ParallelManager_init ::
  "garbage \<Rightarrow> bounds list \<Rightarrow> int \<Rightarrow> ParticleArray list \<Rightarrow> comm \<Rightarrow> real \<Rightarrow> int
     \<Rightarrow> DomainLimits option \<Rightarrow> string list option \<Rightarrow> error + ParallelManager" where
  "ParallelManager_init g peers dimension particles c radius_scale ghost_layers domain lb_props =
     bind_err (map_err ParticleArrayWrapper_init particles) (\<lambda>_.
     bind_err (map_err (\<lambda>pa. ParticleArrayExchange_init pa c lb_props) particles) (\<lambda>exchanges.
     bind_err (remove_remote_particles g
         \<lparr> pm_narrays = length particles,
           pm_pa_exchanges = exchanges,
           pm_num_local = map (\<lambda>pa. int (get_number_of_particles pa)) particles,
           pm_num_global = replicate (length particles) 0,
           pm_num_remote = replicate (length particles) 0,
           pm_local_bounds = \<lparr> b_mx = 0, b_my = 0, b_mz = 0, b_Mx = 0, b_My = 0, b_Mz = 0, b_Mh = 0 \<rparr>,
           pm_global_bounds = \<lparr> b_mx = 0, b_my = 0, b_mz = 0, b_Mx = 0, b_My = 0, b_Mz = 0, b_Mh = 0 \<rparr>,
           pm_in_parallel = (comm_size c \<noteq> 1),
           pm_rank = comm_rank c,
           pm_size = comm_size c,
           pm_cells = [],
           pm_radius_scale = radius_scale,
           pm_ghost_layers = ghost_layers,
           pm_cell_size = 0,
           pm_console = \<lparr> stdout = [], stderr = [] \<rparr> \<rparr>) (\<lambda>s.
       local_bin peers s)))"

definition get_nearest_particles ::
  "ParallelManager \<Rightarrow> nat \<Rightarrow> nat \<Rightarrow> nat \<Rightarrow> nat list \<Rightarrow> error + nat list \<times> ParallelManager" where
  "get_nearest_particles s src_index dst_index i nbrs =
     (if src_index < length (pm_pa_exchanges s) \<and> dst_index < length (pm_pa_exchanges s) then
        bind_err (ParticleArrayWrapper_init (pae_pa (pm_pa_exchanges s ! src_index))) (\<lambda>src.
        bind_err (ParticleArrayWrapper_init (pae_pa (pm_pa_exchanges s ! dst_index))) (\<lambda>dst.
          if i < length (pw_x dst) \<and> i < length (pw_y dst) \<and> i < length (pw_h dst) then
            (let xi = cPoint_new (pw_x dst ! i) (pw_y dst ! i) 0;
                 cid = find_cell_id xi (pm_cell_size s);
                 hi = pm_radius_scale s * pw_h dst ! i
             in bind_err
                  (fold_err
                     (nearest_cell NeighborSearchExtending (pm_cells s) src_index
                        (pw_x src) (pw_y src) None (pw_h src) xi hi (pm_radius_scale s))
                     (neighbor_cellids cid) (nbrs, 0, pm_console s))
                  (\<lambda>(nbrs', nnbrs, con). Inr (take nnbrs nbrs', s\<lparr> pm_console := con \<rparr>)))
          else Inl OutOfBounds))
      else Inl IndexError)"

text \<open>
  A particle array with the given coordinates, smoothing lengths, global ids and tags,
  and zero for the other load-balancing properties.
\<close>

definition make_pa ::
  "real list \<Rightarrow> real list \<Rightarrow> real list \<Rightarrow> real list \<Rightarrow> nat list \<Rightarrow> int list \<Rightarrow> ParticleArray" where
  "make_pa x y z h gid tag =
     (let zeros = DoubleArray (map (\<lambda>_. 0) x)
      in [''x'' \<mapsto> DoubleArray x, ''y'' \<mapsto> DoubleArray y, ''z'' \<mapsto> DoubleArray z,
          ''ax'' \<mapsto> zeros, ''ay'' \<mapsto> zeros, ''az'' \<mapsto> zeros,
          ''u'' \<mapsto> zeros, ''v'' \<mapsto> zeros, ''w'' \<mapsto> zeros,
          ''au'' \<mapsto> zeros, ''av'' \<mapsto> zeros, ''aw'' \<mapsto> zeros,
          ''rho'' \<mapsto> zeros, ''arho'' \<mapsto> zeros, ''m'' \<mapsto> zeros,
          ''h'' \<mapsto> DoubleArray h, ''gid'' \<mapsto> UIntArray gid, ''tag'' \<mapsto> IntArray tag])"

section \<open>Cell-content consistency\<close>

text \<open>The arrays of a property, empty when the property is missing or of another type.\<close>

definition doubles_of :: "ParticleArray \<Rightarrow> string \<Rightarrow> real list" where
  "doubles_of pa name = (case pa name of Some (DoubleArray xs) \<Rightarrow> xs | _ \<Rightarrow> [])"

definition uints_of :: "ParticleArray \<Rightarrow> string \<Rightarrow> nat list" where
  "uints_of pa name = (case pa name of Some (UIntArray xs) \<Rightarrow> xs | _ \<Rightarrow> [])"

definition ints_of :: "ParticleArray \<Rightarrow> string \<Rightarrow> int list" where
  "ints_of pa name = (case pa name of Some (IntArray xs) \<Rightarrow> xs | _ \<Rightarrow> [])"

text \<open>
  The invariant of a cell for the array \<open>k\<close>, in the spec's words: the local and the
  global index lists have the same length, and at every position the row lies in the
  arrays, its cell index is the cell's, and the global index is the row's global id.
\<close>

definition rows_consistent ::
  "real \<Rightarrow> real list \<Rightarrow> real list \<Rightarrow> nat list \<Rightarrow> Cell \<Rightarrow> nat \<Rightarrow> bool" where
  "rows_consistent cs x y gid c k =
     list_all2
       (\<lambda>r g. r < length x \<and> r < length y \<and> r < length gid
             \<and> find_cell_id (cPoint_new (x ! r) (y ! r) 0) cs = c_cid c
             \<and> g = gid ! r)
       (lindices c ! k) (gindices c ! k)"

definition cell_map_consistent ::
  "real \<Rightarrow> ParticleArray list \<Rightarrow> nat \<Rightarrow> (cIntPoint \<times> Cell) list \<Rightarrow> bool" where
  "cell_map_consistent cs pas n cells =
     list_all
       (\<lambda>kc. list_all
                (\<lambda>k. rows_consistent cs (doubles_of (pas ! k) ''x'') (doubles_of (pas ! k) ''y'')
                        (uints_of (pas ! k) ''gid'') (snd kc) k)
                [0 ..< n])
       cells"

text \<open>Every cell is stored under its own index and has one pair of lists per array.\<close>

definition cells_wellformed :: "nat \<Rightarrow> (cIntPoint \<times> Cell) list \<Rightarrow> bool" where
  "cells_wellformed n cells =
     list_all
       (\<lambda>kc. c_cid (snd kc) = fst kc \<and> length (lindices (snd kc)) = n
            \<and> length (gindices (snd kc)) = n)
       cells"

definition manager_consistent :: "ParallelManager \<Rightarrow> bool" where
  "manager_consistent s =
     (cell_map_consistent (pm_cell_size s) (map pae_pa (pm_pa_exchanges s)) (pm_narrays s)
        (pm_cells s)
      \<and> cells_wellformed (pm_narrays s) (pm_cells s))"

definition NNPS_consistent :: "NNPS \<Rightarrow> bool" where
  "NNPS_consistent s =
     cell_map_consistent (nnps_cell_size s) (nnps_particles s) (nnps_narrays s) (nnps_cells s)"

text \<open>
  What the serial search keeps instead: every row of a cell lies in the wrapper's
  arrays and has the cell's index, and the lists of global indices stay empty.
\<close>

definition NNPS_cell_ok :: "real \<Rightarrow> NNPSParticleArrayWrapper list \<Rightarrow> nat \<Rightarrow> cIntPoint \<times> Cell \<Rightarrow> bool" where
  "NNPS_cell_ok cs ws n kc =
     (c_cid (snd kc) = fst kc \<and> length (lindices (snd kc)) = n
      \<and> gindices (snd kc) = replicate n []
      \<and> list_all
          (\<lambda>k. list_all
                  (\<lambda>r. r < length (w_x (ws ! k)) \<and> r < length (w_y (ws ! k))
                      \<and> find_cell_id (cPoint_new (w_x (ws ! k) ! r) (w_y (ws ! k) ! r) 0) cs
                          = c_cid (snd kc))
                  (lindices (snd kc) ! k))
          [0 ..< n])"

definition NNPS_rows_consistent :: "NNPS \<Rightarrow> bool" where
  "NNPS_rows_consistent s =
     list_all (NNPS_cell_ok (nnps_cell_size s) (nnps_pa_wrappers s) (nnps_narrays s)) (nnps_cells s)"

section \<open>Rows of an array\<close>

text \<open>The first \<open>n\<close> rows of an array, to say which rows an exchange leaves alone.\<close>

fun carray_take :: "nat \<Rightarrow> carray \<Rightarrow> carray" where
  "carray_take n (DoubleArray xs) = DoubleArray (take n xs)"
| "carray_take n (UIntArray xs) = UIntArray (take n xs)"
| "carray_take n (IntArray xs) = IntArray (take n xs)"
| "carray_take n (LongArray xs) = LongArray (take n xs)"

text \<open>
  What an exchange keeps of the array \<open>pa0\<close> it starts from: the length of every
  property, the rows below the first write position \<open>c0\<close>, and, when \<open>tagged\<close>, the
  tag \<open>v\<close> on every row from \<open>c0\<close> on.
\<close>

definition kept_by_exchange :: "nat \<Rightarrow> bool \<Rightarrow> int \<Rightarrow> ParticleArray \<Rightarrow> ParticleArray \<Rightarrow> bool" where
  "kept_by_exchange c0 tagged v pa0 pa =
     ((\<forall>name. map_option carray_length (pa name) = map_option carray_length (pa0 name))
      \<and> (\<forall>name. map_option (carray_take c0) (pa name) = map_option (carray_take c0) (pa0 name))
      \<and> (tagged \<longrightarrow> list_all (\<lambda>t. t = v) (drop c0 (ints_of pa ''tag''))))"

section \<open>The neighbour set\<close>

text \<open>
  The neighbour criterion in the spec's words: with \<open>xi\<close> the destination point, \<open>xj\<close>
  the source point of row \<open>j\<close>, \<open>hi\<close> the scaled radius of the destination and
  \<open>hj = radius_scale * src_h[j]\<close>, row \<open>j\<close> is a neighbour when \<open>d < hi\<close> or
  \<open>d < hj\<close> for \<open>d = |xi - xj|\<close>.
\<close>

definition is_neighbor :: "real \<Rightarrow> cPoint \<Rightarrow> real \<Rightarrow> NNPSParticleArrayWrapper \<Rightarrow> nat \<Rightarrow> bool" where
  "is_neighbor radius_scale xi hi src j =
     (cPoint_distance xi (cPoint_new (w_x src ! j) (w_y src ! j) (w_z src ! j)) < hi
      \<or> cPoint_distance xi (cPoint_new (w_x src ! j) (w_y src ! j) (w_z src ! j))
          < radius_scale * w_h src ! j)"

text \<open>The rows a cell map holds for array \<open>k\<close> under a cell index, and the cell of a row.\<close>

definition rows_of :: "nat \<Rightarrow> (cIntPoint \<times> Cell) list \<Rightarrow> cIntPoint \<Rightarrow> nat list" where
  "rows_of k cells cid = (case map_of cells cid of None \<Rightarrow> [] | Some c \<Rightarrow> lindices c ! k)"

definition cell_of :: "real \<Rightarrow> NNPSParticleArrayWrapper \<Rightarrow> nat \<Rightarrow> cIntPoint" where
  "cell_of cs w r = find_cell_id (cPoint_new (w_x w ! r) (w_y w ! r) 0) cs"

text \<open>
  A wrapper whose four arrays have the length of its particle count, and a serial
  search whose wrappers are such and agree with its particle arrays, as the
  constructor leaves them for particle arrays with properties of equal length.
\<close>

definition wrapper_wf :: "NNPSParticleArrayWrapper \<Rightarrow> bool" where
  "wrapper_wf w =
     (length (w_x w) = w_np w \<and> length (w_y w) = w_np w
      \<and> length (w_z w) = w_np w \<and> length (w_h w) = w_np w)"

definition NNPS_wf :: "NNPS \<Rightarrow> bool" where
  "NNPS_wf s =
     (length (nnps_pa_wrappers s) = nnps_narrays s
      \<and> length (nnps_particles s) = nnps_narrays s
      \<and> list_all wrapper_wf (nnps_pa_wrappers s)
      \<and> map get_number_of_particles (nnps_particles s) = map w_np (nnps_pa_wrappers s))"

section \<open>Scenario inputs\<close>

text \<open>
  Scenario A of the spec: one array of four particles at (0.1,0.1), (0.4,0.2),
  (1.2,0.2), (0.3,1.1) with h = 0.5, and radius scale 2. The spec gives no z
  coordinate; it is 0 here.
\<close>

definition scenario_A_pa :: ParticleArray where
  "scenario_A_pa =
     make_pa [0.1, 0.4, 1.2, 0.3] [0.1, 0.2, 0.2, 1.1] [0, 0, 0, 0] [0.5, 0.5, 0.5, 0.5]
       [0, 1, 2, 3] [0, 0, 0, 0]"

text \<open>Uninitialised rows that hold 9 in every property.\<close>

definition stale_garbage :: garbage where
  "stale_garbage = \<lparr> g_double = (\<lambda>_. 9), g_uint = (\<lambda>_. 9), g_int = (\<lambda>_. 9) \<rparr>"

text \<open>
  A state of the serial search seen from outside: the sequence of calls made on it.
  A run stops at the first error.
\<close>

datatype nnps_call = Update | GetNearest nat nat nat "nat list"

datatype nnps_result = Updated "(cIntPoint \<times> Cell) list" | Nearest "nat list"

fun NNPS_run :: "NNPS \<Rightarrow> nnps_call list \<Rightarrow> error + nnps_result list" where
  "NNPS_run s [] = Inr []"
| "NNPS_run s (Update # calls) =
     bind_err (NNPS_update s) (\<lambda>s'.
     bind_err (NNPS_run s' calls) (\<lambda>rs. Inr (Updated (nnps_cells s') # rs)))"
| "NNPS_run s (GetNearest src_index dst_index d_idx nbrs # calls) =
     bind_err (NNPS_get_nearest_particles s src_index dst_index d_idx nbrs) (\<lambda>r.
     bind_err (NNPS_run (snd r) calls) (\<lambda>rs. Inr (Nearest (fst r) # rs)))"

text \<open>
  A manager on one rank holding Scenario A with cell size 1, before any binning; the
  cell map is then built by \<^const>\<open>update_local_data\<close>, which does not compute bounds.
\<close>

definition scenario_A_exchange :: ParticleArrayExchange where
  "scenario_A_exchange =
     \<lparr> pae_pa = scenario_A_pa, pae_rank = 0, pae_size = 1,
       pae_num_local = 4, pae_num_remote = 0, pae_num_global = 4, pae_num_ghost = 0,
       exportParticleGlobalids = [], exportParticleLocalids = [], exportParticleProcs = [],
       numParticleExport = 0,
       importParticleGlobalids = [], importParticleLocalids = [], importParticleProcs = [],
       numParticleImport = 0,
       pae_lb_props = default_lb_props \<rparr>"

definition scenario_A_manager :: ParallelManager where
  "scenario_A_manager =
     \<lparr> pm_narrays = 1,
       pm_pa_exchanges = [scenario_A_exchange],
       pm_num_local = [4],
       pm_num_global = [4],
       pm_num_remote = [0],
       pm_local_bounds = \<lparr> b_mx = 0, b_my = 0, b_mz = 0, b_Mx = 0, b_My = 0, b_Mz = 0, b_Mh = 0 \<rparr>,
       pm_global_bounds = \<lparr> b_mx = 0, b_my = 0, b_mz = 0, b_Mx = 0, b_My = 0, b_Mz = 0, b_Mh = 0 \<rparr>,
       pm_in_parallel = False,
       pm_rank = 0,
       pm_size = 1,
       pm_cells = [],
       pm_radius_scale = 2,
       pm_ghost_layers = 2,
       pm_cell_size = 1,
       pm_console = \<lparr> stdout = [], stderr = [] \<rparr> \<rparr>"

text \<open>Two ranks for the renumbering of global ids: three local rows on rank 0, two on rank 1.\<close>

definition two_rank_exchanges :: "ParticleArrayExchange list" where
  "two_rank_exchanges =
     [scenario_A_exchange\<lparr> pae_pa := make_pa [0, 1, 2] [0, 0, 0] [0, 0, 0] [1, 1, 1] [7, 7, 7] [0, 0, 0],
                            pae_rank := 0, pae_size := 2, pae_num_local := 3 \<rparr>,
      scenario_A_exchange\<lparr> pae_pa := make_pa [3, 4] [0, 0] [0, 0] [1, 1] [9, 9] [0, 0],
                            pae_rank := 1, pae_size := 2, pae_num_local := 2 \<rparr>]"

text \<open>
  Rank 0 of two ranks with three local rows. For a load-balance exchange it exports
  row 1 to rank 1 and imports two rows from rank 1; for a halo exchange it imports one
  row from rank 1. Rank 1 sends rows it holds as Local.
\<close>

definition exchange_rank0 :: ParticleArrayExchange where
  "exchange_rank0 =
     scenario_A_exchange\<lparr>
       pae_pa := make_pa [0.1, 0.2, 0.3] [0, 0, 0] [0, 0, 0] [0.5, 0.5, 0.5] [0, 1, 2] [0, 0, 0],
       pae_rank := 0, pae_size := 2, pae_num_local := 3, pae_num_global := 5 \<rparr>"

definition lb_rank0 :: ParticleArrayExchange where
  "lb_rank0 =
     exchange_rank0\<lparr> exportParticleLocalids := [1], exportParticleGlobalids := [1],
                      exportParticleProcs := [1], numParticleExport := 1,
                      importParticleLocalids := [0, 1], importParticleGlobalids := [3, 4],
                      importParticleProcs := [1, 1], numParticleImport := 2 \<rparr>"

definition lb_incoming :: "int \<Rightarrow> string \<Rightarrow> carray" where
  "lb_incoming src prop =
     (if prop = ''gid'' then UIntArray [3, 4]
      else if prop = ''tag'' then IntArray [0, 0]
      else DoubleArray [0.7, 0.8])"

definition remote_rank0 :: ParticleArrayExchange where
  "remote_rank0 =
     exchange_rank0\<lparr> importParticleLocalids := [0], importParticleGlobalids := [3],
                      importParticleProcs := [1], numParticleImport := 1 \<rparr>"

definition remote_incoming :: "int \<Rightarrow> string \<Rightarrow> carray" where
  "remote_incoming src prop =
     (if prop = ''gid'' then UIntArray [3]
      else if prop = ''tag'' then IntArray [0]
      else DoubleArray [0.7])"

text \<open>
  Two particles 0.8 apart with smoothing lengths 0.1 and 0.5, and a pair of arrays of
  different lengths: one destination particle and two source particles close to it.
\<close>

definition two_radii_pa :: ParticleArray where
  "two_radii_pa = make_pa [0, 0.8] [0, 0] [0, 0] [0.1, 0.5] [0, 1] [0, 0]"

definition one_particle_pa :: ParticleArray where
  "one_particle_pa = make_pa [0] [0] [0] [0.5] [0] [0]"

definition two_particles_pa :: ParticleArray where
  "two_particles_pa = make_pa [0.1, 0.2] [0, 0] [0, 0] [0.5, 0.5] [0, 1] [0, 0]"

section \<open>Basic facts\<close>

lemma cPoint_distance_less: "cPoint_distance p q < r \<longleftrightarrow> distance_less p q r"
proof (cases "0 < r")
  case True
  have "sqrt a < r \<longleftrightarrow> a < r * r" for a
    using True real_sqrt_less_iff [of a "r * r"] by simp
  with True show ?thesis by (simp add: cPoint_distance_def distance_less_def)
next
  case False
  have "0 \<le> cPoint_distance p q"
    by (simp add: cPoint_distance_def)
  with False show ?thesis by (simp add: distance_less_def)
qed

lemma nearest_step_code [code]:
  "nearest_step msg s_x s_y s_z s_h xi hi radius_scale j st =
     (case st of (nbrs, nnbrs, con) \<Rightarrow>
        if j < length s_x \<and> j < length s_y \<and> j < length s_h
           \<and> (case s_z of None \<Rightarrow> True | Some zs \<Rightarrow> j < length zs) then
          (let xj = cPoint_new (s_x ! j) (s_y ! j) (case s_z of None \<Rightarrow> 0 | Some zs \<Rightarrow> zs ! j);
               hj = radius_scale * s_h ! j
           in if distance_less xi xj hi \<or> distance_less xi xj hj then
                (let grown = (nnbrs = length nbrs);
                     nbrs' = (if grown then UIntArray_resize (length nbrs + 50) nbrs else nbrs);
                     con' = (if grown then print (msg (length nbrs')) con else con)
                 in Inr (nbrs'[nnbrs := j], nnbrs + 1, con'))
              else Inr st)
        else Inl OutOfBounds)"
  unfolding nearest_step_def Let_def cPoint_distance_less by (rule refl)

lemma bind_err_Inr_iff:
  "bind_err m f = Inr b \<longleftrightarrow> (\<exists>a. m = Inr a \<and> f a = Inr b)"
  by (cases m) (simp_all add: bind_err_def)

lemma bind_err_simps [simp]:
  "bind_err (Inl e) f = Inl e"
  "bind_err (Inr a) f = f a"
  by (simp_all add: bind_err_def)

lemma fold_err_invariant:
  assumes "fold_err f as s = Inr s'" and "P s"
    and "\<And>a t t'. a \<in> set as \<Longrightarrow> P t \<Longrightarrow> f a t = Inr t' \<Longrightarrow> P t'"
  shows "P s'"
  using assms
proof (induction as arbitrary: s)
  case Nil
  then show ?case by simp
next
  case (Cons a as)
  from Cons.prems(1) obtain t where t: "f a s = Inr t" and rest: "fold_err f as t = Inr s'"
    by (auto split: sum.splits)
  have "P t" using Cons.prems(2,3) t by auto
  with rest Cons.IH Cons.prems(3) show ?case by auto
qed

lemma fold_err_append:
  "fold_err f (as @ bs) s = bind_err (fold_err f as s) (fold_err f bs)"
  by (induction as arbitrary: s) (auto split: sum.splits)

lemma sum_Inr_projr: "\<not> isl m \<Longrightarrow> m = Inr (projr m)"
  by (cases m) simp_all

section \<open>Facts about binning\<close>

lemma dict_update_pred:
  assumes "list_all (\<lambda>kc. P (snd kc)) d" and "\<And>c. P c \<Longrightarrow> P (f c)"
  shows "list_all (\<lambda>kc. P (snd kc)) (dict_update k f d)"
  using assms by (induction d) auto

lemma dict_insert_pred:
  assumes "list_all (\<lambda>kc. P (snd kc)) d" and "P c"
  shows "list_all (\<lambda>kc. P (snd kc)) (dict_insert k c d)"
  using assms by (auto simp: dict_insert_def intro: dict_update_pred)

lemma NNPS_bin_particle_layers:
  assumes "NNPS_bin_particle cs n x y k i cells = Inr cells'"
    and "list_all (\<lambda>kc. layers (snd kc) = Cell_default_layers) cells"
  shows "list_all (\<lambda>kc. layers (snd kc) = Cell_default_layers) cells'"
proof -
  have new: "layers (Cell_init cid cs n Cell_default_layers) = Cell_default_layers" for cid
    by (simp add: Cell_init_def compute_bounding_box_def)
  from assms show ?thesis
    by (auto simp: NNPS_bin_particle_def Let_def new split: if_splits
        intro!: dict_update_pred [where P = "\<lambda>c. layers c = Cell_default_layers"]
                dict_insert_pred [where P = "\<lambda>c. layers c = Cell_default_layers"])
qed

lemma NNPS_bin_layers:
  assumes "NNPS_bin s k indices = Inr s'"
    and "list_all (\<lambda>kc. layers (snd kc) = Cell_default_layers) (nnps_cells s)"
  shows "list_all (\<lambda>kc. layers (snd kc) = Cell_default_layers) (nnps_cells s')"
proof -
  from assms(1) obtain cells where
    f: "fold_err (NNPS_bin_particle (nnps_cell_size s) (nnps_narrays s)
          (w_x (nnps_pa_wrappers s ! k)) (w_y (nnps_pa_wrappers s ! k)) k) indices (nnps_cells s) = Inr cells"
    and s': "s' = s\<lparr> nnps_cells := cells \<rparr>"
    by (auto simp: NNPS_bin_def Let_def bind_err_Inr_iff split: if_splits)
  have "list_all (\<lambda>kc. layers (snd kc) = Cell_default_layers) cells"
    by (rule fold_err_invariant
          [where P = "list_all (\<lambda>kc. layers (snd kc) = Cell_default_layers)", OF f assms(2)])
       (rule NNPS_bin_particle_layers)
  with s' show ?thesis by simp
qed

lemma NNPS_update_layers:
  assumes "NNPS_update s = Inr s'"
  shows "list_all (\<lambda>kc. layers (snd kc) = Cell_default_layers) (nnps_cells s')"
proof -
  have start: "list_all (\<lambda>kc. layers (snd kc) = Cell_default_layers)
                 (nnps_cells (NNPS_compute_cell_size (s\<lparr> nnps_cells := [] \<rparr>)))"
    by (simp add: NNPS_compute_cell_size_def Let_def)
  show ?thesis
    by (rule fold_err_invariant
          [where P = "\<lambda>t. list_all (\<lambda>kc. layers (snd kc) = Cell_default_layers) (nnps_cells t)",
            OF assms [unfolded NNPS_update_def] start])
       (auto split: if_splits dest: NNPS_bin_layers)
qed

section \<open>Facts about the cell size\<close>

lemma maximum_Max: "xs \<noteq> [] \<Longrightarrow> maximum xs = Some (Max (set xs))"
proof (cases xs)
  case Nil
  assume "xs \<noteq> []"
  with Nil show ?thesis by simp
next
  case (Cons a as)
  have "fold max as a = Max (set (a # as))" by (rule Max.set_eq_fold [symmetric])
  with Cons show ?thesis by simp
qed

lemma higher_maximum: "higher (maximum xs) a = Max (insert a (set xs))"
proof (cases xs)
  case Nil
  then show ?thesis by (simp add: higher_def)
next
  case (Cons b bs)
  then have "xs \<noteq> []" by simp
  then have m: "maximum xs = Some (Max (set xs))" by (rule maximum_Max)
  have "Max (insert a (set xs)) = max a (Max (set xs))"
    using \<open>xs \<noteq> []\<close> by simp
  with m show ?thesis by (auto simp: higher_def max_def)
qed

lemma fold_Max_union:
  assumes "\<And>w. w \<in> set ws \<Longrightarrow> finite (S w)"
  shows "fold (\<lambda>w a. Max (insert a (S w))) ws a0 = Max (insert (a0::real) (\<Union>w\<in>set ws. S w))"
  using assms
proof (induction ws arbitrary: a0)
  case Nil
  then show ?case by simp
next
  case (Cons w ws)
  have fin: "finite (\<Union>w\<in>set ws. S w)" using Cons.prems by auto
  have fw: "finite (S w)" using Cons.prems by simp
  have "fold (\<lambda>w a. Max (insert a (S w))) (w # ws) a0
      = Max (insert (Max (insert a0 (S w))) (\<Union>w\<in>set ws. S w))"
    using Cons by simp
  also have "\<dots> = Max (insert a0 (S w) \<union> (\<Union>w\<in>set ws. S w))"
  proof (cases "(\<Union>w\<in>set ws. S w) = {}")
    case True
    then show ?thesis by simp
  next
    case False
    have "Max (insert a0 (S w) \<union> (\<Union>w\<in>set ws. S w))
        = max (Max (insert a0 (S w))) (Max (\<Union>w\<in>set ws. S w))"
      using fin fw False by (intro Max_Un) auto
    moreover have "Max (insert (Max (insert a0 (S w))) (\<Union>w\<in>set ws. S w))
        = max (Max (insert a0 (S w))) (Max (\<Union>w\<in>set ws. S w))"
      using fin False by simp
    ultimately show ?thesis by simp
  qed
  also have "insert a0 (S w) \<union> (\<Union>w\<in>set ws. S w) = insert a0 (\<Union>w\<in>set (w # ws). S w)"
    by auto
  finally show ?case .
qed

lemma NNPS_hmax_Max:
  "NNPS_hmax ws = Max (insert (-1) (\<Union>w\<in>set ws. set (w_h w)))"
proof -
  have "(\<lambda>w hmax. case maximum (w_h w) of None \<Rightarrow> hmax | Some m \<Rightarrow> if m > hmax then m else hmax)
      = (\<lambda>w a. Max (insert a (set (w_h w))))"
    by (intro ext) (simp add: higher_maximum [symmetric] higher_def)
  then have "NNPS_hmax ws = fold (\<lambda>w a. Max (insert a (set (w_h w)))) ws (-1)"
    unfolding NNPS_hmax_def by (rule arg_cong [where f = "\<lambda>f. fold f ws (-1)"])
  also have "\<dots> = Max (insert (-1) (\<Union>w\<in>set ws. set (w_h w)))"
    by (rule fold_Max_union) simp
  finally show ?thesis .
qed

lemma Allreduce_max: "Allreduce max a bs = Max (insert a (set bs))"
proof -
  have "fold max bs a = Max (set (a # bs))" by (rule Max.set_eq_fold [symmetric])
  then show ?thesis by (simp add: Allreduce_def)
qed

lemma compute_bounds_Mh:
  assumes "compute_bounds peers m = Inr m'"
  shows "b_Mh (pm_global_bounds m') = Max (insert (b_Mh (pm_local_bounds m')) (set (map b_Mh peers)))"
    and "pm_radius_scale m' = pm_radius_scale m" and "pm_console m' = pm_console m"
  using assms
  by (auto simp: compute_bounds_def bind_err_Inr_iff Let_def Allreduce_max split: if_splits)

lemma NNPS_compute_cell_size_result:
  "nnps_cell_size (NNPS_compute_cell_size s) =
     (if nnps_radius_scale s * NNPS_hmax (nnps_pa_wrappers s) < 1 / 1000000 then 1
      else nnps_radius_scale s * NNPS_hmax (nnps_pa_wrappers s))"
  "stdout (nnps_console (NNPS_compute_cell_size s)) =
     (if nnps_radius_scale s * NNPS_hmax (nnps_pa_wrappers s) < 1 / 1000000
      then stdout (nnps_console s)
             @ [CellSizeTooSmall (nnps_radius_scale s * NNPS_hmax (nnps_pa_wrappers s))]
      else stdout (nnps_console s))"
  "stderr (nnps_console (NNPS_compute_cell_size s)) = stderr (nnps_console s)"
  by (simp_all add: NNPS_compute_cell_size_def Let_def print_def)

lemma compute_cell_size_cases:
  assumes "compute_cell_size peers m = Inr m'"
  obtains m1 where "compute_bounds peers m = Inr m1"
    and "pm_radius_scale m1 * b_Mh (pm_global_bounds m1) < 1 / 1000000"
    and "m' = m1\<lparr> pm_console := print (CellSizeTooSmall (pm_radius_scale m1 * b_Mh (pm_global_bounds m1)))
                                     (pm_console m1),
                    pm_cell_size := 1 \<rparr>"
  | m1 where "compute_bounds peers m = Inr m1"
    and "\<not> pm_radius_scale m1 * b_Mh (pm_global_bounds m1) < 1 / 1000000"
    and "m' = m1\<lparr> pm_cell_size := pm_radius_scale m1 * b_Mh (pm_global_bounds m1) \<rparr>"
proof (cases "compute_bounds peers m")
  case (Inl e)
  with assms show ?thesis by (simp add: compute_cell_size_def)
next
  case (Inr m1)
  show ?thesis
  proof (cases "pm_radius_scale m1 * b_Mh (pm_global_bounds m1) < 1 / 1000000")
    case True
    with assms Inr have "m' = m1\<lparr> pm_console := print (CellSizeTooSmall (pm_radius_scale m1 * b_Mh (pm_global_bounds m1)))
                                     (pm_console m1),
                    pm_cell_size := 1 \<rparr>"
      unfolding compute_cell_size_def Let_def by (simp del: less_divide_eq_numeral1)
    with Inr True that(1) show ?thesis by blast
  next
    case False
    with assms Inr have "m' = m1\<lparr> pm_cell_size := pm_radius_scale m1 * b_Mh (pm_global_bounds m1) \<rparr>"
      unfolding compute_cell_size_def Let_def by (simp del: less_divide_eq_numeral1)
    with Inr False that(2) show ?thesis by blast
  qed
qed

lemma compute_cell_size_result:
  assumes "compute_cell_size peers m = Inr m'"
  shows "pm_cell_size m' =
     (if pm_radius_scale m * b_Mh (pm_global_bounds m') < 1 / 1000000 then 1
      else pm_radius_scale m * b_Mh (pm_global_bounds m'))"
    and "stdout (pm_console m') =
     (if pm_radius_scale m * b_Mh (pm_global_bounds m') < 1 / 1000000
      then stdout (pm_console m) @ [CellSizeTooSmall (pm_radius_scale m * b_Mh (pm_global_bounds m'))]
      else stdout (pm_console m))"
    and "stderr (pm_console m') = stderr (pm_console m)"
    and "b_Mh (pm_global_bounds m')
           = Max (insert (b_Mh (pm_local_bounds m')) (set (map b_Mh peers)))"
  using assms
  by (cases rule: compute_cell_size_cases;
      simp add: print_def compute_bounds_Mh del: less_divide_eq_numeral1)+

section \<open>Facts about cell-content consistency\<close>

lemma dict_update_list_all:
  assumes "list_all Q d" and "\<And>v. Q (k, v) \<Longrightarrow> Q (k, f v)"
  shows "list_all Q (dict_update k f d)"
  using assms by (induction d) (auto simp: prod_eq_iff)

lemma get_double_Inr: "get_double pa name = Inr xs \<Longrightarrow> doubles_of pa name = xs"
  by (auto simp: get_double_def doubles_of_def split: option.splits carray.splits)

lemma get_uint_Inr: "get_uint pa name = Inr xs \<Longrightarrow> uints_of pa name = xs"
  by (auto simp: get_uint_def uints_of_def split: option.splits carray.splits)

lemma get_int_Inr: "get_int pa name = Inr xs \<Longrightarrow> ints_of pa name = xs"
  by (auto simp: get_int_def ints_of_def split: option.splits carray.splits)

lemma ParticleArrayWrapper_init_fields:
  assumes "ParticleArrayWrapper_init pa = Inr w"
  shows "pw_x w = doubles_of pa ''x''" and "pw_y w = doubles_of pa ''y''"
    and "pw_h w = doubles_of pa ''h''" and "pw_gid w = uints_of pa ''gid''"
    and "pw_tag w = ints_of pa ''tag''"
  using assms
  by (auto simp: ParticleArrayWrapper_init_def bind_err_Inr_iff
      dest!: get_double_Inr get_uint_Inr get_int_Inr)

text \<open>The invariant of one entry of the manager's cell map.\<close>

lemma Cell_init_fields:
  "c_cid (Cell_init cid cs n l) = cid"
  "lindices (Cell_init cid cs n l) = replicate n []"
  "gindices (Cell_init cid cs n l) = replicate n []"
  "layers (Cell_init cid cs n l) = l"
  by (simp_all add: Cell_init_def compute_bounding_box_def)

lemma bin_particle_consistent:
  assumes b: "bin_particle cs n lyrs (doubles_of (pas ! k) ''x'') (doubles_of (pas ! k) ''y'')
                (uints_of (pas ! k) ''gid'') k i cells = Inr cells'"
    and k: "k < n"
    and inv: "cell_map_consistent cs pas n cells \<and> cells_wellformed n cells"
  shows "cell_map_consistent cs pas n cells' \<and> cells_wellformed n cells'"
proof -
  let ?x = "doubles_of (pas ! k) ''x''" and ?y = "doubles_of (pas ! k) ''y''"
  let ?gid = "uints_of (pas ! k) ''gid''"
  let ?cid = "find_cell_id (cPoint_new (?x ! i) (?y ! i) 0) cs"
  let ?Q = "\<lambda>kc. list_all
                (\<lambda>k. rows_consistent cs (doubles_of (pas ! k) ''x'') (doubles_of (pas ! k) ''y'')
                        (uints_of (pas ! k) ''gid'') (snd kc) k)
                [0 ..< n]
            \<and> c_cid (snd kc) = fst kc \<and> length (lindices (snd kc)) = n
            \<and> length (gindices (snd kc)) = n"
  let ?f = "\<lambda>cell. cell\<lparr> lindices := (lindices cell)[k := lindices cell ! k @ [i]],
                         gindices := (gindices cell)[k := gindices cell ! k @ [?gid ! i]] \<rparr>"
  let ?cells = "if has_key cells ?cid then cells
                else dict_insert ?cid (Cell_init ?cid cs n lyrs) cells"
  from b have i: "i < length ?x" "i < length ?y" "i < length ?gid"
    and cells': "cells' = dict_update ?cid ?f ?cells"
    by (auto simp: bin_particle_def Let_def split: if_splits)
  from inv have Q: "list_all ?Q cells"
    by (auto simp: cell_map_consistent_def cells_wellformed_def list_all_iff)
  have new: "?Q (?cid, Cell_init ?cid cs n lyrs)"
    by (simp add: Cell_init_fields rows_consistent_def list_all_iff)
  have Q1: "list_all ?Q ?cells"
    using Q new by (simp add: dict_insert_def)
  have step: "?Q (?cid, ?f v)" if v: "?Q (?cid, v)" for v
  proof -
    have "rows_consistent cs (doubles_of (pas ! k') ''x'') (doubles_of (pas ! k') ''y'')
            (uints_of (pas ! k') ''gid'') (?f v) k'" if k': "k' < n" for k'
    proof (cases "k' = k")
      case True
      from v k have old: "rows_consistent cs ?x ?y ?gid v k"
        by (simp add: list_all_iff)
      from v k have len: "k < length (lindices v)" "k < length (gindices v)" "c_cid v = ?cid"
        by simp_all
      show ?thesis
        using old len i unfolding True rows_consistent_def
        by (simp add: list_all2_appendI)
    next
      case False
      from v k' have "rows_consistent cs (doubles_of (pas ! k') ''x'') (doubles_of (pas ! k') ''y'')
            (uints_of (pas ! k') ''gid'') v k'"
        by (simp add: list_all_iff)
      with False show ?thesis by (simp add: rows_consistent_def)
    qed
    with v show ?thesis by (simp add: list_all_iff)
  qed
  have "list_all ?Q (dict_update ?cid ?f ?cells)"
    by (rule dict_update_list_all [OF Q1]) (rule step)
  with cells' show ?thesis
    by (auto simp: cell_map_consistent_def cells_wellformed_def list_all_iff)
qed

lemma bin_consistent:
  assumes b: "bin s k indices = Inr s'" and k: "k < pm_narrays s" and inv: "manager_consistent s"
  shows "manager_consistent s'"
    and "pm_narrays s' = pm_narrays s" and "pm_pa_exchanges s' = pm_pa_exchanges s"
    and "pm_cell_size s' = pm_cell_size s"
proof -
  let ?pas = "map pae_pa (pm_pa_exchanges s)"
  from b obtain w cells where kl: "k < length (pm_pa_exchanges s)"
    and w: "ParticleArrayWrapper_init (pae_pa (pm_pa_exchanges s ! k)) = Inr w"
    and f: "fold_err (bin_particle (pm_cell_size s) (pm_narrays s) (pm_ghost_layers s)
                       (pw_x w) (pw_y w) (pw_gid w) k) indices (pm_cells s) = Inr cells"
    and s': "s' = s\<lparr> pm_cells := cells \<rparr>"
    by (auto simp: bin_def bind_err_Inr_iff split: if_splits)
  from kl have pk: "?pas ! k = pae_pa (pm_pa_exchanges s ! k)" by simp
  note fields = ParticleArrayWrapper_init_fields [OF w, folded pk]
  have "cell_map_consistent (pm_cell_size s) ?pas (pm_narrays s) cells
        \<and> cells_wellformed (pm_narrays s) cells"
    by (rule fold_err_invariant
          [where P = "\<lambda>c. cell_map_consistent (pm_cell_size s) ?pas (pm_narrays s) c
                         \<and> cells_wellformed (pm_narrays s) c", OF f])
       (use inv k in \<open>auto simp: manager_consistent_def fields
                       dest: bin_particle_consistent [where pas = "?pas"]\<close>)
  with s' show "manager_consistent s'" by (simp add: manager_consistent_def)
  from s' show "pm_narrays s' = pm_narrays s" "pm_pa_exchanges s' = pm_pa_exchanges s"
    "pm_cell_size s' = pm_cell_size s" by simp_all
qed


lemma manager_consistent_cong:
  assumes "pm_cells t0 = pm_cells t" "pm_narrays t0 = pm_narrays t"
    "pm_pa_exchanges t0 = pm_pa_exchanges t" "pm_cell_size t0 = pm_cell_size t"
  shows "manager_consistent t0 = manager_consistent t"
  using assms by (simp add: manager_consistent_def)

lemma fold_bin_consistent:
  assumes f: "fold_err F [0 ..< n] s = Inr s'"
    and inv: "manager_consistent s" and n: "pm_narrays s = n"
    and F: "\<And>i t t'. F i t = Inr t' \<Longrightarrow>
              \<exists>t0 idx. bin t0 i idx = Inr t' \<and> pm_cells t0 = pm_cells t
                \<and> pm_narrays t0 = pm_narrays t \<and> pm_pa_exchanges t0 = pm_pa_exchanges t
                \<and> pm_cell_size t0 = pm_cell_size t"
  shows "manager_consistent s'"
proof -
  have "manager_consistent s' \<and> pm_narrays s' = n"
  proof (rule fold_err_invariant
          [where P = "\<lambda>t. manager_consistent t \<and> pm_narrays t = n", OF f])
    show "manager_consistent s \<and> pm_narrays s = n" using inv n by simp
  next
    fix i t t'
    assume i: "i \<in> set [0 ..< n]" and t: "manager_consistent t \<and> pm_narrays t = n"
      and r: "F i t = Inr t'"
    from F [OF r] obtain t0 idx where b: "bin t0 i idx = Inr t'"
      and eq: "pm_cells t0 = pm_cells t" "pm_narrays t0 = pm_narrays t"
        "pm_pa_exchanges t0 = pm_pa_exchanges t" "pm_cell_size t0 = pm_cell_size t"
      by blast
    from t eq have c0: "manager_consistent t0" by (simp add: manager_consistent_cong [OF eq])
    from i t eq have i0: "i < pm_narrays t0" by simp
    from bin_consistent [OF b i0 c0] t eq
    show "manager_consistent t' \<and> pm_narrays t' = n" by simp
  qed
  then show ?thesis ..
qed

lemma compute_bounds_fields:
  assumes "compute_bounds peers m = Inr m'"
  shows "pm_cells m' = pm_cells m" and "pm_narrays m' = pm_narrays m"
  using assms
  by (auto simp: compute_bounds_def bind_err_Inr_iff Let_def split: if_splits)

lemma compute_cell_size_fields:
  assumes "compute_cell_size peers m = Inr m'"
  shows "pm_cells m' = pm_cells m" and "pm_narrays m' = pm_narrays m"
  using assms
  by (cases rule: compute_cell_size_cases; simp add: compute_bounds_fields)+

lemma empty_manager_consistent: "pm_cells s = [] \<Longrightarrow> manager_consistent s"
  by (simp add: manager_consistent_def cell_map_consistent_def cells_wellformed_def)

lemma local_bin_consistent:
  assumes "local_bin peers s = Inr s'"
  shows "manager_consistent s'"
proof -
  from assms obtain s1 where c: "compute_cell_size peers (s\<lparr> pm_cells := [] \<rparr>) = Inr s1"
    and f: "fold_err
         (\<lambda>i s'. if i < length (pm_num_local s')
                  then bin s' i (arange_uint (pm_num_local s' ! i) (-1))
                  else Inl IndexError)
         [0 ..< pm_narrays s1] s1 = Inr s'"
    by (auto simp: local_bin_def bind_err_Inr_iff)
  from compute_cell_size_fields [OF c] have "manager_consistent s1"
    by (simp add: empty_manager_consistent)
  then show ?thesis
    by (rule fold_bin_consistent [OF f _ refl]) (auto split: if_splits)
qed

lemma update_local_data_consistent:
  assumes "update_local_data s = Inr s'"
  shows "manager_consistent s'"
proof -
  have "manager_consistent (s\<lparr> pm_cells := [] \<rparr>)"
    by (simp add: empty_manager_consistent)
  then show ?thesis
  proof (rule fold_bin_consistent [OF assms [unfolded update_local_data_def]])
    show "pm_narrays (s\<lparr> pm_cells := [] \<rparr>) = pm_narrays s" by simp
  next
    fix i t t'
    assume "(if i < length (pm_pa_exchanges t) \<and> i < length (pm_num_local t)
                   \<and> i < length (pm_num_global t) then
                  (let pa_exchange = pm_pa_exchanges t ! i;
                       num_particles = pae_num_local pa_exchange
                   in bin (t\<lparr> pm_num_local := (pm_num_local t)[i := pae_num_local pa_exchange],
                                pm_num_global := (pm_num_global t)[i := pae_num_global pa_exchange] \<rparr>)
                        i (arange_uint num_particles (-1)))
                else Inl IndexError) = Inr t'"
    then have "bin (t\<lparr> pm_num_local := (pm_num_local t)[i := pae_num_local (pm_pa_exchanges t ! i)],
                        pm_num_global := (pm_num_global t)[i := pae_num_global (pm_pa_exchanges t ! i)] \<rparr>)
                 i (arange_uint (pae_num_local (pm_pa_exchanges t ! i)) (-1)) = Inr t'"
      by (simp add: Let_def split: if_splits)
    then show "\<exists>t0 idx. bin t0 i idx = Inr t' \<and> pm_cells t0 = pm_cells t
                \<and> pm_narrays t0 = pm_narrays t \<and> pm_pa_exchanges t0 = pm_pa_exchanges t
                \<and> pm_cell_size t0 = pm_cell_size t"
      by (intro exI [of _ "t\<lparr> pm_num_local := (pm_num_local t)[i := pae_num_local (pm_pa_exchanges t ! i)],
                        pm_num_global := (pm_num_global t)[i := pae_num_global (pm_pa_exchanges t ! i)] \<rparr>"]
                exI [of _ "arange_uint (pae_num_local (pm_pa_exchanges t ! i)) (-1)"]) simp
  qed
qed

lemma update_remote_data_consistent:
  assumes "update_remote_data s = Inr s'" and "manager_consistent s"
  shows "manager_consistent s'"
  using assms(2)
proof (rule fold_bin_consistent [OF assms(1) [unfolded update_remote_data_def] _ refl])
  fix i t t'
  assume "(if i < length (pm_pa_exchanges t) \<and> i < length (pm_num_local t)
                   \<and> i < length (pm_num_remote t) then
                  (let pa_exchange = pm_pa_exchanges t ! i;
                       num_local = pae_num_local pa_exchange;
                       num_remote = pae_num_remote pa_exchange
                   in bin (t\<lparr> pm_num_local := (pm_num_local t)[i := num_local],
                                pm_num_remote := (pm_num_remote t)[i := num_remote] \<rparr>)
                        i (arange_uint num_local (num_local + num_remote)))
                else Inl IndexError) = Inr t'"
  then have "bin (t\<lparr> pm_num_local := (pm_num_local t)[i := pae_num_local (pm_pa_exchanges t ! i)],
                      pm_num_remote := (pm_num_remote t)[i := pae_num_remote (pm_pa_exchanges t ! i)] \<rparr>)
               i (arange_uint (pae_num_local (pm_pa_exchanges t ! i))
                    (pae_num_local (pm_pa_exchanges t ! i) + pae_num_remote (pm_pa_exchanges t ! i)))
             = Inr t'"
    by (simp add: Let_def split: if_splits)
  then show "\<exists>t0 idx. bin t0 i idx = Inr t' \<and> pm_cells t0 = pm_cells t
                \<and> pm_narrays t0 = pm_narrays t \<and> pm_pa_exchanges t0 = pm_pa_exchanges t
                \<and> pm_cell_size t0 = pm_cell_size t"
    by (intro exI [of _ "t\<lparr> pm_num_local := (pm_num_local t)[i := pae_num_local (pm_pa_exchanges t ! i)],
                      pm_num_remote := (pm_num_remote t)[i := pae_num_remote (pm_pa_exchanges t ! i)] \<rparr>"]
              exI [of _ "arange_uint (pae_num_local (pm_pa_exchanges t ! i))
                    (pae_num_local (pm_pa_exchanges t ! i) + pae_num_remote (pm_pa_exchanges t ! i))"]) simp
qed

lemma NNPS_bin_particle_ok:
  assumes b: "NNPS_bin_particle cs n (w_x (ws ! k)) (w_y (ws ! k)) k i cells = Inr cells'"
    and k: "k < n" and inv: "list_all (NNPS_cell_ok cs ws n) cells"
  shows "list_all (NNPS_cell_ok cs ws n) cells'"
proof -
  let ?x = "w_x (ws ! k)" and ?y = "w_y (ws ! k)"
  let ?cid = "find_cell_id (cPoint_new (?x ! i) (?y ! i) 0) cs"
  let ?f = "\<lambda>cell. cell\<lparr> lindices := (lindices cell)[k := lindices cell ! k @ [i]] \<rparr>"
  let ?cells = "if has_key cells ?cid then cells
                else dict_insert ?cid (Cell_init ?cid cs n Cell_default_layers) cells"
  from b have i: "i < length ?x" "i < length ?y"
    and cells': "cells' = dict_update ?cid ?f ?cells"
    by (auto simp: NNPS_bin_particle_def Let_def split: if_splits)
  have new: "NNPS_cell_ok cs ws n (?cid, Cell_init ?cid cs n Cell_default_layers)"
    by (simp add: NNPS_cell_ok_def Cell_init_fields list_all_iff)
  have Q1: "list_all (NNPS_cell_ok cs ws n) ?cells"
    using inv new by (simp add: dict_insert_def)
  have step: "NNPS_cell_ok cs ws n (?cid, ?f v)" if v: "NNPS_cell_ok cs ws n (?cid, v)" for v
  proof -
    have "list_all (\<lambda>r. r < length (w_x (ws ! k')) \<and> r < length (w_y (ws ! k'))
                      \<and> find_cell_id (cPoint_new (w_x (ws ! k') ! r) (w_y (ws ! k') ! r) 0) cs
                          = c_cid (?f v))
                  (lindices (?f v) ! k')" if k': "k' < n" for k'
    proof (cases "k' = k")
      case True
      from v k i show ?thesis unfolding True
        by (simp add: NNPS_cell_ok_def list_all_iff)
    next
      case False
      from v k' False show ?thesis
        by (simp add: NNPS_cell_ok_def list_all_iff)
    qed
    with v show ?thesis by (simp add: NNPS_cell_ok_def list_all_iff)
  qed
  have "list_all (NNPS_cell_ok cs ws n) (dict_update ?cid ?f ?cells)"
    by (rule dict_update_list_all [OF Q1]) (rule step)
  with cells' show ?thesis by simp
qed

lemma NNPS_bin_ok:
  assumes b: "NNPS_bin s k indices = Inr s'" and k: "k < nnps_narrays s"
    and inv: "NNPS_rows_consistent s"
  shows "NNPS_rows_consistent s' \<and> nnps_narrays s' = nnps_narrays s"
proof -
  from b obtain cells where
    f: "fold_err (NNPS_bin_particle (nnps_cell_size s) (nnps_narrays s)
          (w_x (nnps_pa_wrappers s ! k)) (w_y (nnps_pa_wrappers s ! k)) k) indices (nnps_cells s) = Inr cells"
    and s': "s' = s\<lparr> nnps_cells := cells \<rparr>"
    by (auto simp: NNPS_bin_def Let_def bind_err_Inr_iff split: if_splits)
  have "list_all (NNPS_cell_ok (nnps_cell_size s) (nnps_pa_wrappers s) (nnps_narrays s)) cells"
    by (rule fold_err_invariant
          [where P = "list_all (NNPS_cell_ok (nnps_cell_size s) (nnps_pa_wrappers s) (nnps_narrays s))",
            OF f])
       (use inv k in \<open>auto simp: NNPS_rows_consistent_def dest: NNPS_bin_particle_ok\<close>)
  with s' show ?thesis by (simp add: NNPS_rows_consistent_def)
qed

lemma NNPS_update_ok:
  assumes "NNPS_update s = Inr s'"
  shows "NNPS_rows_consistent s'"
proof -
  let ?s1 = "NNPS_compute_cell_size (s\<lparr> nnps_cells := [] \<rparr>)"
  have start: "NNPS_rows_consistent ?s1 \<and> nnps_narrays ?s1 = nnps_narrays s"
    by (simp add: NNPS_compute_cell_size_def Let_def NNPS_rows_consistent_def)
  have "NNPS_rows_consistent s' \<and> nnps_narrays s' = nnps_narrays s"
    by (rule fold_err_invariant
          [where P = "\<lambda>t. NNPS_rows_consistent t \<and> nnps_narrays t = nnps_narrays s",
            OF assms [unfolded NNPS_update_def] start])
       (auto split: if_splits dest: NNPS_bin_ok)
  then show ?thesis ..
qed

section \<open>Facts about the renumbering of global ids\<close>

lemma sum_list_take_le:
  assumes "\<forall>c\<in>set cs. (0::int) \<le> c"
  shows "0 \<le> sum_list (take r cs)" and "sum_list (take r cs) \<le> sum_list cs"
proof -
  have nn: "0 \<le> sum_list xs" if "\<forall>c\<in>set xs. (0::int) \<le> c" for xs
    using that by (induction xs) auto
  have t: "\<forall>c\<in>set (take r cs). 0 \<le> c" and d: "\<forall>c\<in>set (drop r cs). 0 \<le> c"
    using assms by (meson in_set_takeD, meson in_set_dropD)
  show "0 \<le> sum_list (take r cs)" by (rule nn [OF t])
  have "sum_list cs = sum_list (take r cs) + sum_list (drop r cs)"
    by (metis append_take_drop_id sum_list_append)
  with nn [OF d] show "sum_list (take r cs) \<le> sum_list cs" by simp
qed

lemma nth_le_sum_list:
  assumes "\<forall>c\<in>set cs. (0::int) \<le> c" and "r < length cs"
  shows "sum_list (take r cs) + cs ! r \<le> sum_list cs"
proof -
  have "sum_list (take (Suc r) cs) = sum_list (take r cs) + cs ! r"
    using assms(2) by (simp add: take_Suc_conv_app_nth)
  with sum_list_take_le(2) [OF assms(1), of "Suc r"] show ?thesis by simp
qed

lemma gid_range:
  assumes "0 \<le> s" and "0 \<le> n" and "s + n < 2 ^ 31"
  shows "map (\<lambda>i. nat ((s + int i) mod 2 ^ 32)) [0 ..< nat n] = [nat s ..< nat s + nat n]"
proof (rule nth_equalityI)
  show "length (map (\<lambda>i. nat ((s + int i) mod 2 ^ 32)) [0 ..< nat n])
          = length [nat s ..< nat s + nat n]" by simp
next
  fix i assume "i < length (map (\<lambda>i. nat ((s + int i) mod 2 ^ 32)) [0 ..< nat n])"
  then have i: "i < nat n" by simp
  with assms have "0 \<le> s + int i" and "s + int i < 2 ^ 32" by auto
  then have "(s + int i) mod 2 ^ 32 = s + int i" by simp
  with i assms show "map (\<lambda>i. nat ((s + int i) mod 2 ^ 32)) [0 ..< nat n] ! i
      = [nat s ..< nat s + nat n] ! i"
    by (simp add: nat_add_distrib)
qed

lemma update_particle_gids_result:
  assumes g: "\<not> isl (get_uint (pae_pa e) ''gid'')"
    and r: "pae_rank e < length world" and own: "world ! pae_rank e = pae_num_local e"
    and nn: "\<forall>c\<in>set world. 0 \<le> c" and tot: "sum_list world < 2 ^ 31"
  shows "map_sum id (\<lambda>e'. uints_of (pae_pa e') ''gid'') (update_particle_gids world e)
         = Inr [nat (sum_list (take (pae_rank e) world))
                 ..< nat (sum_list (take (pae_rank e) world)) + nat (world ! pae_rank e)]"
proof -
  let ?r = "pae_rank e"
  let ?s = "sum_list (take ?r world)"
  from g obtain gs where gs: "get_uint (pae_pa e) ''gid'' = Inr gs"
    by (cases "get_uint (pae_pa e) ''gid''") simp_all
  have data: "get_num_objects_per_proc world ?r (pae_num_local e) = world"
    unfolding get_num_objects_per_proc_def own [symmetric] by (rule list_update_id)
  have n0: "0 \<le> world ! ?r" using nn r by simp
  have s0: "0 \<le> ?s" and sle: "?s + world ! ?r \<le> sum_list world"
    using sum_list_take_le(1) [OF nn] nth_le_sum_list [OF nn r] by simp_all
  have t0: "0 \<le> sum_list world" using s0 n0 sle by simp
  have c1: "to_c_int (world ! ?r) = Inr (world ! ?r)"
    using n0 s0 sle tot by (simp add: to_c_int_def)
  have c2: "to_c_int (sum_list world) = Inr (sum_list world)"
    using t0 tot by (simp add: to_c_int_def)
  have c3: "to_c_int ?s = Inr ?s"
    using n0 s0 sle tot by (simp add: to_c_int_def)
  have rng: "map (\<lambda>i. nat ((?s + int i) mod 2 ^ 32)) [0 ..< nat (world ! ?r)]
               = [nat ?s ..< nat ?s + nat (world ! ?r)]"
    using s0 n0 sle tot by (intro gid_range) simp_all
  show ?thesis
    unfolding update_particle_gids_def data Let_def
    using r gs c1 c2 c3 rng by (simp add: uints_of_def)
qed

lemma concat_ranges:
  assumes "n \<le> length cs"
  shows "concat (map (\<lambda>r. [sum_list (take r cs) ..< sum_list (take r cs) + cs ! r]) [0 ..< n])
           = [0 ..< sum_list (take n (cs::nat list))]"
  using assms
proof (induction n)
  case 0
  then show ?case by simp
next
  case (Suc n)
  then have n: "n < length cs" by simp
  have "sum_list (take (Suc n) cs) = sum_list (take n cs) + cs ! n"
    using n by (simp add: take_Suc_conv_app_nth)
  moreover have "[0 ..< sum_list (take n cs) + cs ! n]
      = [0 ..< sum_list (take n cs)] @ [sum_list (take n cs) ..< sum_list (take n cs) + cs ! n]"
    by (rule upt_add_eq_append) simp
  ultimately show ?case using Suc by simp
qed

lemma nat_sum_list:
  assumes "\<forall>c\<in>set cs. (0::int) \<le> c"
  shows "nat (sum_list cs) = sum_list (map nat cs)"
  using assms
proof (induction cs)
  case Nil
  then show ?case by simp
next
  case (Cons c cs)
  have "0 \<le> sum_list cs" using Cons.prems sum_list_take_le(1) [of cs "length cs"] by simp
  with Cons show ?case by (simp add: nat_add_distrib)
qed

section \<open>Facts about the exchanges\<close>

lemma length_resize_list: "length (resize_list g n xs) = n"
  by (simp add: resize_list_def)

lemma take_resize_list: "length xs \<le> n \<Longrightarrow> take (length xs) (resize_list g n xs) = xs"
  by (simp add: resize_list_def)

lemma drop_resize_list:
  "length xs \<le> n \<Longrightarrow> drop (length xs) (resize_list g n xs) = map g [length xs ..< n]"
  by (simp add: resize_list_def)

lemma carray_length_resize: "carray_length (carray_resize g n c) = n"
  by (cases c) (simp_all add: length_resize_list)

lemma carray_take_resize:
  "carray_length c \<le> n \<Longrightarrow> carray_take (carray_length c) (carray_resize g n c) = c"
  by (cases c) (simp_all add: take_resize_list)

lemma carray_length_select: "carray_length (carray_select rows c) = length rows"
  by (cases c) (simp_all add: select_rows_def)

lemma length_kept_rows:
  assumes "distinct ids" and "\<forall>i\<in>set ids. i < n"
  shows "length (kept_rows ids n) = n - length ids"
proof -
  have "distinct (filter (\<lambda>i. i \<in> set ids) [0 ..< n])" by simp
  then have "length (filter (\<lambda>i. i \<in> set ids) [0 ..< n])
               = card (set (filter (\<lambda>i. i \<in> set ids) [0 ..< n]))"
    by (simp only: distinct_card)
  also have "set (filter (\<lambda>i. i \<in> set ids) [0 ..< n]) = set ids" using assms(2) by auto
  also have "card (set ids) = length ids" using assms(1) by (rule distinct_card)
  finally have a: "length (filter (\<lambda>i. i \<in> set ids) [0 ..< n]) = length ids" .
  have "length (filter (\<lambda>i. i \<in> set ids) [0 ..< n])
          + length (filter (\<lambda>i. \<not> i \<in> set ids) [0 ..< n]) = length [0 ..< n]"
    by (rule sum_length_filter_compl)
  with a show ?thesis by (simp add: kept_rows_def)
qed

lemma set_tag_loop:
  "length (fold (\<lambda>i t. if 0 \<le> i \<and> i < int (length t) then t[nat i := v] else t)
             [start .. stop - 1] t) = length t
   \<and> (\<forall>i<length t.
          fold (\<lambda>i t. if 0 \<le> i \<and> i < int (length t) then t[nat i := v] else t)
            [start .. stop - 1] t ! i
          = (if start \<le> int i \<and> int i < stop then v else t ! i))"
proof (induction "nat (stop - start)" arbitrary: start t)
  case 0
  then have "[start .. stop - 1] = []" by simp
  with 0 show ?case by auto
next
  case (Suc k)
  let ?f = "\<lambda>i t. if 0 \<le> i \<and> i < int (length t) then t[nat i := v] else t"
  from Suc.hyps(2) have lt: "start < stop" by linarith
  then have u: "[start .. stop - 1] = start # [start + 1 .. stop - 1]"
    by (simp add: upto_rec1)
  have k: "k = nat (stop - (start + 1))" using Suc.hyps(2) by linarith
  let ?t1 = "?f start t"
  have l1: "length ?t1 = length t" by simp
  from Suc.hyps(1) [OF k, of ?t1]
  have l: "length (fold ?f [start + 1 .. stop - 1] ?t1) = length t"
    and n: "\<forall>i<length t. fold ?f [start + 1 .. stop - 1] ?t1 ! i
               = (if start + 1 \<le> int i \<and> int i < stop then v else ?t1 ! i)"
    unfolding l1 by blast+
  have "\<forall>i<length t. fold ?f [start + 1 .. stop - 1] ?t1 ! i
           = (if start \<le> int i \<and> int i < stop then v else t ! i)"
  proof (intro allI impI)
    fix i assume i: "i < length t"
    show "fold ?f [start + 1 .. stop - 1] ?t1 ! i
            = (if start \<le> int i \<and> int i < stop then v else t ! i)"
    proof (cases "int i = start")
      case True
      with n i lt show ?thesis by (auto simp: nat_eq_iff)
    next
      case False
      then have "?t1 ! i = t ! i" using i by (auto simp: nat_eq_iff)
      with n i False show ?thesis by auto
    qed
  qed
  with l u show ?case by simp
qed


lemma length_distinct_bounded:
  assumes "distinct ids" and "\<forall>i\<in>set ids. i < (n::nat)"
  shows "length ids \<le> n"
proof -
  have "card (set ids) \<le> card {..<n}"
    using assms(2) by (intro card_mono) auto
  with assms(1) show ?thesis by (simp add: distinct_card)
qed

lemma get_int_Some: "\<not> isl (get_int pa name) \<Longrightarrow> \<exists>ts. pa name = Some (IntArray ts)"
  by (auto simp: get_int_def split: option.splits carray.splits)

lemma set_tag_result:
  assumes tg: "pa ''tag'' = Some (IntArray ts)"
  shows "\<exists>ts'. set_tag start stop v pa = Inr (pa(''tag'' \<mapsto> IntArray ts'))
           \<and> length ts' = length ts
           \<and> (\<forall>i<length ts. ts' ! i = (if start \<le> int i \<and> int i < stop then v else ts ! i))"
proof -
  have "get_int pa ''tag'' = Inr ts" using tg by (simp add: get_int_def)
  then have "set_tag start stop v pa
      = Inr (pa(''tag'' \<mapsto> IntArray
               (fold (\<lambda>i t. if 0 \<le> i \<and> i < int (length t) then t[nat i := v] else t)
                  [start .. stop - 1] ts)))"
    unfolding set_tag_def by simp
  with set_tag_loop [of v start stop ts] show ?thesis by blast
qed

lemma prepare_tags:
  assumes tg: "pa ''tag'' = Some (IntArray ts)" and len: "length ts = new" and m: "m \<le> new"
  shows "\<exists>ts'. set_tag (int m) (int new) v pa = Inr (pa(''tag'' \<mapsto> IntArray ts'))
           \<and> length ts' = new \<and> take m ts' = take m ts \<and> list_all (\<lambda>t. t = v) (drop m ts')"
proof -
  from set_tag_result [of pa ts "int m" "int new" v, OF tg] len
  obtain ts' where r: "set_tag (int m) (int new) v pa = Inr (pa(''tag'' \<mapsto> IntArray ts'))"
    and l: "length ts' = new"
    and n: "\<forall>i<new. ts' ! i = (if int m \<le> int i \<and> int i < int new then v else ts ! i)"
    by auto
  have t: "take m ts' = take m ts"
    using l len m n by (intro nth_equalityI) auto
  have d: "list_all (\<lambda>t. t = v) (drop m ts')"
    using l n by (auto simp: list_all_length)
  from r l t d show ?thesis by blast
qed

lemma lb_prepare_result:
  assumes rows: "\<forall>name c. pae_pa e name = Some c \<longrightarrow> carray_length c = n"
    and nloc: "pae_num_local e = int n"
    and tag: "\<not> isl (get_int (pae_pa e) ''tag'')"
    and ids: "distinct (exportParticleLocalids e)" "\<forall>i\<in>set (exportParticleLocalids e). i < n"
    and nE: "numParticleExport e = int (length (exportParticleLocalids e))"
    and nI: "0 \<le> numParticleImport e"
  shows "\<exists>pa1. lb_prepare g e = Inr (e\<lparr> pae_pa := pa1 \<rparr>)
    \<and> (\<forall>name. map_option carray_length (pa1 name)
          = map_option (\<lambda>_. n - length (exportParticleLocalids e) + nat (numParticleImport e))
              (pae_pa e name))
    \<and> (\<forall>name. map_option (carray_take (n - length (exportParticleLocalids e))) (pa1 name)
          = map_option (carray_select (kept_rows (exportParticleLocalids e) n)) (pae_pa e name))
    \<and> list_all (\<lambda>t. t = Local) (drop (n - length (exportParticleLocalids e)) (ints_of pa1 ''tag''))"
proof -
  let ?ids = "exportParticleLocalids e"
  let ?m = "n - length ?ids"
  let ?new = "?m + nat (numParticleImport e)"
  let ?kept = "kept_rows ?ids n"
  let ?pa2 = "pa_resize g ?new (remove_particles ?ids (pae_pa e))"
  have le: "length ?ids \<le> n" by (rule length_distinct_bounded [OF ids])
  have lk: "length ?kept = ?m" by (rule length_kept_rows [OF ids])
  have newsize: "nat (pae_num_local e - numParticleExport e + numParticleImport e) = ?new"
    using nloc nE nI le by simp
  have cnt: "pae_num_local e - numParticleExport e = int ?m"
    using nloc nE le by simp
  have newsize': "pae_num_local e - numParticleExport e + numParticleImport e = int ?new"
    using nloc nE nI le by simp
  have pa2: "?pa2 name = map_option (\<lambda>c. carray_resize g ?new (carray_select ?kept c)) (pae_pa e name)"
    for name
    using rows by (cases "pae_pa e name") (simp_all add: pa_resize_def remove_particles_def)
  from get_int_Some [OF tag] obtain ts where ts: "pae_pa e ''tag'' = Some (IntArray ts)" by blast
  let ?t2 = "resize_list (g_int g) ?new (select_rows ?kept ts)"
  have tag2: "?pa2 ''tag'' = Some (IntArray ?t2)" by (simp add: pa2 ts)
  from prepare_tags [of ?pa2 ?t2 ?new ?m Local, OF tag2 length_resize_list]
  obtain ts' where st: "set_tag (int ?m) (int ?new) Local ?pa2 = Inr (?pa2(''tag'' \<mapsto> IntArray ts'))"
    and l': "length ts' = ?new" and t': "take ?m ts' = take ?m ?t2"
    and d': "list_all (\<lambda>t. t = Local) (drop ?m ts')"
    by auto
  let ?pa3 = "?pa2(''tag'' \<mapsto> IntArray ts')"
  have n2: "int ?m + numParticleImport e = int ?new" using nI by simp
  have r: "lb_prepare g e = Inr (e\<lparr> pae_pa := ?pa3 \<rparr>)"
    unfolding lb_prepare_def Let_def cnt n2 nat_int using st by (simp add: Local_def)
  have lens: "map_option carray_length (?pa3 name) = map_option (\<lambda>_. ?new) (pae_pa e name)" for name
    by (cases "pae_pa e name") (auto simp: pa2 ts l' carray_length_resize)
  have sel: "length (select_rows ?kept xs) = ?m" for xs :: "'a list"
    by (simp add: select_rows_def lk)
  have tk: "take ?m ?t2 = select_rows ?kept ts"
    using take_resize_list [of "select_rows ?kept ts" ?new "g_int g"] by (simp add: sel)
  have pre: "map_option (carray_take ?m) (?pa3 name) = map_option (carray_select ?kept) (pae_pa e name)"
    for name
  proof (cases "name = ''tag''")
    case True
    then show ?thesis by (simp add: ts t' tk)
  next
    case False
    show ?thesis
    proof (cases "pae_pa e name")
      case None
      with False show ?thesis by (simp add: pa2)
    next
      case (Some c)
      have "carray_length (carray_select ?kept c) = ?m" by (simp add: carray_length_select lk)
      then have "carray_take ?m (carray_resize g ?new (carray_select ?kept c)) = carray_select ?kept c"
        using carray_take_resize [of "carray_select ?kept c" ?new g] by simp
      with False Some show ?thesis by (simp add: pa2)
    qed
  qed
  have "list_all (\<lambda>t. t = Local) (drop ?m (ints_of ?pa3 ''tag''))"
    using d' by (simp add: ints_of_def)
  with r lens pre show ?thesis by blast
qed


lemma write_at_props:
  assumes "write_at pos buf xs = Inr ys"
  shows "length ys = length xs"
    and "c0 \<le> pos \<Longrightarrow> take c0 ys = take c0 xs"
    and "c0 \<le> pos \<Longrightarrow> set (drop c0 ys) \<subseteq> set (drop c0 xs) \<union> set buf"
proof -
  from assms have le: "pos + length buf \<le> length xs"
    and ys: "ys = take pos xs @ buf @ drop (pos + length buf) xs"
    by (auto simp: write_at_def split: if_splits)
  from le ys show "length ys = length xs" by simp
  show "take c0 ys = take c0 xs" if "c0 \<le> pos"
    using that le ys by (simp add: min_def)
  show "set (drop c0 ys) \<subseteq> set (drop c0 xs) \<union> set buf" if c: "c0 \<le> pos"
  proof -
    have a: "set (drop c0 (take pos xs)) \<subseteq> set (drop c0 xs)"
      by (metis drop_take set_take_subset)
    have b: "set (drop (pos + length buf) xs) \<subseteq> set (drop c0 xs)"
      using c by (intro set_drop_subset_set_drop) simp
    have "drop c0 ys = drop c0 (take pos xs) @ buf @ drop (pos + length buf) xs"
      using c le ys by simp
    with a b show ?thesis by auto
  qed
qed

lemma carray_write_props:
  assumes "carray_write pos buf c = Inr c'"
  shows "carray_length c' = carray_length c"
    and "c0 \<le> pos \<Longrightarrow> carray_take c0 c' = carray_take c0 c"
  using assms
  by (cases buf; cases c; auto simp: bind_err_Inr_iff dest: write_at_props)+

lemma carray_write_ints:
  assumes "carray_write pos buf (IntArray xs) = Inr c'"
  obtains vs ys where "buf = IntArray vs" and "c' = IntArray ys" and "write_at pos vs xs = Inr ys"
  using assms by (cases buf) (auto simp: bind_err_Inr_iff)

lemma Recv_cases:
  assumes "Recv contribution expected cnt prop pa = Inr pa'"
  obtains localbuf c' where "pa prop = Some localbuf" and "0 \<le> cnt"
    and "carray_write (nat cnt) contribution localbuf = Inr c'" and "pa' = pa(prop \<mapsto> c')"
  using assms
  by (auto simp: Recv_def bind_err_Inr_iff split: option.splits if_splits)

text \<open>What a receive keeps, relative to the array \<open>pa0\<close> before the exchange.\<close>

lemma Recv_keeps:
  assumes r: "Recv contribution expected cnt prop pa = Inr pa'" and c: "int c0 \<le> cnt"
    and L: "\<forall>name. map_option carray_length (pa name) = map_option carray_length (pa0 name)"
    and P: "\<forall>name. map_option (carray_take c0) (pa name) = map_option (carray_take c0) (pa0 name)"
  shows "\<forall>name. map_option carray_length (pa' name) = map_option carray_length (pa0 name)"
    and "\<forall>name. map_option (carray_take c0) (pa' name) = map_option (carray_take c0) (pa0 name)"
proof -
  from r obtain localbuf c' where lb: "pa prop = Some localbuf" and 0: "0 \<le> cnt"
    and w: "carray_write (nat cnt) contribution localbuf = Inr c'" and pa': "pa' = pa(prop \<mapsto> c')"
    by (rule Recv_cases)
  from c 0 have c0: "c0 \<le> nat cnt" by simp
  note cw = carray_write_props [OF w]
  show "\<forall>name. map_option carray_length (pa' name) = map_option carray_length (pa0 name)"
    using L [rule_format, of "prop"] L lb cw(1) pa' by auto
  show "\<forall>name. map_option (carray_take c0) (pa' name) = map_option (carray_take c0) (pa0 name)"
    using P [rule_format, of "prop"] P lb cw(2) [OF c0] pa' by auto
qed

lemma Recv_keeps_tags:
  assumes r: "Recv contribution expected cnt prop pa = Inr pa'" and c: "int c0 \<le> cnt"
    and ok: "prop \<noteq> ''tag'' \<or> (\<forall>vs. contribution = IntArray vs \<longrightarrow> list_all (\<lambda>t. t = v) vs)"
    and T: "list_all (\<lambda>t. t = v) (drop c0 (ints_of pa ''tag''))"
  shows "list_all (\<lambda>t. t = v) (drop c0 (ints_of pa' ''tag''))"
proof -
  from r obtain localbuf c' where lb: "pa prop = Some localbuf" and 0: "0 \<le> cnt"
    and w: "carray_write (nat cnt) contribution localbuf = Inr c'" and pa': "pa' = pa(prop \<mapsto> c')"
    by (rule Recv_cases)
  from c 0 have c0: "c0 \<le> nat cnt" by simp
  show ?thesis
  proof (cases "prop = ''tag''")
    case False
    with pa' T show ?thesis by (simp add: ints_of_def)
  next
    case True
    show ?thesis
    proof (cases c')
      case (IntArray ys)
      with w obtain vs xs where k: "contribution = IntArray vs" "localbuf = IntArray xs"
        and wa: "write_at (nat cnt) vs xs = Inr ys"
        by (cases contribution; cases localbuf) (auto simp: bind_err_Inr_iff)
      from ok True k have vs: "list_all (\<lambda>t. t = v) vs" by simp
      from T True lb k have xs: "list_all (\<lambda>t. t = v) (drop c0 xs)" by (simp add: ints_of_def)
      from write_at_props(3) [OF wa c0] vs xs have "list_all (\<lambda>t. t = v) (drop c0 ys)"
        by (auto simp: list_all_iff)
      with True pa' IntArray show ?thesis by (simp add: ints_of_def)
    qed (use True pa' in \<open>simp_all add: ints_of_def\<close>)
  qed
qed


lemma recv_from_keeps:
  assumes r: "recv_from incoming props src st = Inr st'"
    and c: "int c0 \<le> fst st" and n: "0 \<le> snd src"
    and K: "kept_by_exchange c0 tagged v pa0 (snd st)"
    and ok: "tagged \<longrightarrow> ''tag'' \<notin> set props
               \<or> (\<forall>q vs. incoming q ''tag'' = IntArray vs \<longrightarrow> list_all (\<lambda>t. t = v) vs)"
  shows "int c0 \<le> fst st' \<and> kept_by_exchange c0 tagged v pa0 (snd st')"
proof -
  obtain cnt pa where st: "st = (cnt, pa)" by (cases st)
  from r st obtain pa' where
    f: "fold_err (\<lambda>p. Recv (incoming (fst src) p) (snd src) cnt p) props pa = Inr pa'"
    and st': "st' = (cnt + snd src, pa')"
    by (auto simp: recv_from_def bind_err_Inr_iff)
  have "kept_by_exchange c0 tagged v pa0 pa'"
  proof (rule fold_err_invariant [where P = "kept_by_exchange c0 tagged v pa0", OF f])
    show "kept_by_exchange c0 tagged v pa0 pa" using K st by simp
  next
    fix p t t'
    assume p: "p \<in> set props" and t: "kept_by_exchange c0 tagged v pa0 t"
      and rv: "Recv (incoming (fst src) p) (snd src) cnt p t = Inr t'"
    have c': "int c0 \<le> cnt" using c st by simp
    from t have L: "\<forall>name. map_option carray_length (t name) = map_option carray_length (pa0 name)"
      and P: "\<forall>name. map_option (carray_take c0) (t name) = map_option (carray_take c0) (pa0 name)"
      by (simp_all add: kept_by_exchange_def)
    have T: "list_all (\<lambda>t. t = v) (drop c0 (ints_of t' ''tag''))" if tagged
    proof (rule Recv_keeps_tags [OF rv c'])
      show "p \<noteq> ''tag'' \<or> (\<forall>vs. incoming (fst src) p = IntArray vs \<longrightarrow> list_all (\<lambda>t. t = v) vs)"
        using ok that p by auto
      show "list_all (\<lambda>t. t = v) (drop c0 (ints_of t ''tag''))"
        using t that by (simp add: kept_by_exchange_def)
    qed
    from Recv_keeps [OF rv c' L P] T
    show "kept_by_exchange c0 tagged v pa0 t'" by (simp add: kept_by_exchange_def)
  qed
  with st' c st n show ?thesis by simp
qed

lemma recv_loop_keeps:
  assumes f: "fold_err (recv_from incoming props) srcs st = Inr st'"
    and c: "int c0 \<le> fst st" and n: "\<forall>src\<in>set srcs. 0 \<le> snd src"
    and K: "kept_by_exchange c0 tagged v pa0 (snd st)"
    and ok: "tagged \<longrightarrow> ''tag'' \<notin> set props
               \<or> (\<forall>q vs. incoming q ''tag'' = IntArray vs \<longrightarrow> list_all (\<lambda>t. t = v) vs)"
  shows "int c0 \<le> fst st' \<and> kept_by_exchange c0 tagged v pa0 (snd st')"
  by (rule fold_err_invariant
        [where P = "\<lambda>st. int c0 \<le> fst st \<and> kept_by_exchange c0 tagged v pa0 (snd st)", OF f])
     (use c K n ok in \<open>auto dest: recv_from_keeps\<close>)

lemma exchange_data_keeps:
  assumes x: "exchange_data incoming cnt recv e = Inr e'"
    and c: "int c0 \<le> cnt" and n: "\<forall>src\<in>set recv. 0 \<le> snd src"
    and ok: "tagged \<longrightarrow> ''tag'' \<notin> set (pae_lb_props e)
               \<or> (\<forall>q vs. incoming q ''tag'' = IntArray vs \<longrightarrow> list_all (\<lambda>t. t = v) vs)"
    and T: "tagged \<longrightarrow> list_all (\<lambda>t. t = v) (drop c0 (ints_of (pae_pa e) ''tag''))"
  shows "\<exists>pa'. e' = e\<lparr> pae_pa := pa' \<rparr> \<and> kept_by_exchange c0 tagged v (pae_pa e) pa'"
proof -
  let ?props = "remdups (pae_lb_props e)"
  from x obtain st1 st2 where
    f1: "fold_err (recv_from incoming ?props)
           (filter (\<lambda>src. fst src < int (pae_rank e)) recv) (cnt, pae_pa e) = Inr st1"
    and f2: "fold_err (recv_from incoming ?props)
           (filter (\<lambda>src. fst src > int (pae_rank e)) recv) st1 = Inr st2"
    and e': "e' = e\<lparr> pae_pa := snd st2 \<rparr>"
    by (auto simp: exchange_data_def Let_def bind_err_Inr_iff)
  have K0: "kept_by_exchange c0 tagged v (pae_pa e) (snd (cnt, pae_pa e))"
    using T by (simp add: kept_by_exchange_def)
  have ok': "tagged \<longrightarrow> ''tag'' \<notin> set ?props
               \<or> (\<forall>q vs. incoming q ''tag'' = IntArray vs \<longrightarrow> list_all (\<lambda>t. t = v) vs)"
    using ok by simp
  have s1: "int c0 \<le> fst st1 \<and> kept_by_exchange c0 tagged v (pae_pa e) (snd st1)"
    by (rule recv_loop_keeps [OF f1 _ _ K0 ok']) (use c n in auto)
  have "int c0 \<le> fst st2 \<and> kept_by_exchange c0 tagged v (pae_pa e) (snd st2)"
    by (rule recv_loop_keeps [OF f2 _ _ _ ok']) (use s1 n in auto)
  with e' show ?thesis by blast
qed

lemma count_recv_data_nonneg: "\<forall>src\<in>set (count_recv_data k procs). 0 \<le> snd src"
  by (auto simp: count_recv_data_def Let_def)


lemma ints_of_length:
  assumes "pa name = Some c" and "carray_take m c = IntArray ys"
  shows "length (ints_of pa name) = carray_length c"
  using assms by (cases c) (simp_all add: ints_of_def)

lemma all_same_replicate:
  assumes "list_all (\<lambda>t. t = v) xs"
  shows "xs = replicate (length xs) v"
  using assms by (induction xs) auto

lemma appended_tags:
  assumes L: "map_option carray_length (pa ''tag'') = Some (m + k)"
    and P: "map_option (carray_take m) (pa ''tag'') = Some (IntArray ys)"
    and T: "list_all (\<lambda>t. t = v) (drop m (ints_of pa ''tag''))"
  shows "drop m (ints_of pa ''tag'') = replicate k v"
proof -
  from L obtain c where c: "pa ''tag'' = Some c" and l: "carray_length c = m + k" by auto
  from P c have "carray_take m c = IntArray ys" by simp
  from ints_of_length [of pa "''tag''" c m ys, OF c this] l have "length (drop m (ints_of pa ''tag'')) = k" by simp
  with all_same_replicate [OF T] show ?thesis by simp
qed

section \<open>Facts about the neighbour query\<close>

lemma map_of_dict_update:
  "map_of (dict_update k f d) k' = (if k' = k then map_option f (map_of d k) else map_of d k')"
  by (induction d) auto

lemma map_of_dict_insert_new:
  "\<not> has_key d k \<Longrightarrow> map_of (dict_insert k v d) k' = (if k' = k then Some v else map_of d k')"
  by (auto simp: dict_insert_def has_key_def map_add_def split: option.splits)

lemma NNPS_cell_ok_map_of:
  assumes "list_all (NNPS_cell_ok cs ws n) cells" and "map_of cells cid = Some c"
  shows "NNPS_cell_ok cs ws n (cid, c)"
  using assms by (auto simp: list_all_iff dest: map_of_SomeD)

lemma NNPS_bin_particle_rows:
  assumes b: "NNPS_bin_particle cs n (w_x w) (w_y w) k i cells = Inr cells'"
    and k: "k < n" and ok: "list_all (NNPS_cell_ok cs ws n) cells" and k': "k' < n"
  shows "rows_of k' cells' cid =
           (if k' = k \<and> cid = cell_of cs w i then rows_of k cells cid @ [i]
            else rows_of k' cells cid)"
proof -
  let ?cid = "cell_of cs w i"
  let ?f = "\<lambda>cell. cell\<lparr> lindices := (lindices cell)[k := lindices cell ! k @ [i]] \<rparr>"
  let ?new = "Cell_init ?cid cs n Cell_default_layers"
  let ?cells = "if has_key cells ?cid then cells else dict_insert ?cid ?new cells"
  from b have cells': "cells' = dict_update ?cid ?f ?cells"
    by (auto simp: NNPS_bin_particle_def cell_of_def Let_def split: if_splits)
  have m: "map_of ?cells cid' = (if cid' = ?cid \<and> \<not> has_key cells ?cid then Some ?new
                                 else map_of cells cid')" for cid'
    by (auto simp: map_of_dict_insert_new has_key_def)
  have m': "map_of cells' cid' = (if cid' = ?cid then map_option ?f (map_of ?cells ?cid)
                                  else map_of cells cid')" for cid'
    unfolding cells' map_of_dict_update using m by (auto simp: has_key_def)
  show ?thesis
  proof (cases "cid = ?cid")
    case False
    then show ?thesis by (simp add: rows_of_def m')
  next
    case True
    show ?thesis
    proof (cases "map_of cells ?cid")
      case None
      then have "map_of ?cells ?cid = Some ?new"
        by (simp add: has_key_def map_of_dict_insert_new)
      then have "map_of cells' cid = Some (?f ?new)"
        using True by (simp only: m' simp_thms if_True option.map)
      with None True k k' show ?thesis
        by (auto simp: rows_of_def Cell_init_fields)
    next
      case (Some c)
      from NNPS_cell_ok_map_of [OF ok Some] have len: "length (lindices c) = n"
        by (simp add: NNPS_cell_ok_def)
      from Some have "map_of ?cells ?cid = Some c"
        by (simp add: has_key_def)
      then have "map_of cells' cid = Some (?f c)"
        using True by (simp only: m' simp_thms if_True option.map)
      with Some True k len show ?thesis
        by (auto simp: rows_of_def)
    qed
  qed
qed

lemma NNPS_bin_particles_rows:
  assumes f: "fold_err (NNPS_bin_particle cs n (w_x (ws ! k)) (w_y (ws ! k)) k) idxs cells = Inr cells'"
    and k: "k < n" and ok: "list_all (NNPS_cell_ok cs ws n) cells" and k': "k' < n"
  shows "rows_of k' cells' cid =
           (if k' = k then rows_of k cells cid @ filter (\<lambda>r. cell_of cs (ws ! k) r = cid) idxs
            else rows_of k' cells cid)"
  using f ok
proof (induction idxs arbitrary: cells)
  case Nil
  then show ?case by simp
next
  case (Cons i idxs)
  from Cons.prems(1) obtain c1 where
    b: "NNPS_bin_particle cs n (w_x (ws ! k)) (w_y (ws ! k)) k i cells = Inr c1"
    and r: "fold_err (NNPS_bin_particle cs n (w_x (ws ! k)) (w_y (ws ! k)) k) idxs c1 = Inr cells'"
    by (auto split: sum.splits)
  have ok1: "list_all (NNPS_cell_ok cs ws n) c1"
    by (rule NNPS_bin_particle_ok [OF b k Cons.prems(2)])
  note step = NNPS_bin_particle_rows [OF b k Cons.prems(2) k']
  from Cons.IH [OF r ok1] step show ?case by auto
qed


lemma fold_err_upt_invariant:
  assumes "fold_err f [0 ..< n] s = Inr s'" and "P 0 s"
    and "\<And>i t t'. i < n \<Longrightarrow> P i t \<Longrightarrow> f i t = Inr t' \<Longrightarrow> P (Suc i) t'"
  shows "P n s'"
  using assms
proof (induction n arbitrary: s')
  case 0
  then show ?case by simp
next
  case (Suc n)
  from Suc.prems(1) have "bind_err (fold_err f [0 ..< n] s) (fold_err f [n]) = Inr s'"
    by (simp add: fold_err_append)
  then obtain t where t: "fold_err f [0 ..< n] s = Inr t" and l1: "fold_err f [n] t = Inr s'"
    by (auto simp: bind_err_Inr_iff)
  from l1 have l: "f n t = Inr s'" by (cases "f n t") simp_all
  have "P n t" by (rule Suc.IH [OF t Suc.prems(2)]) (use Suc.prems(3) in auto)
  with l Suc.prems(3) show ?case by auto
qed

lemma NNPS_bin_rows:
  assumes b: "NNPS_bin s k idxs = Inr s'" and k: "k < nnps_narrays s"
    and ok: "NNPS_rows_consistent s" and k': "k' < nnps_narrays s"
  shows "rows_of k' (nnps_cells s') cid =
           (if k' = k
            then rows_of k (nnps_cells s) cid
                   @ filter (\<lambda>r. cell_of (nnps_cell_size s) (nnps_pa_wrappers s ! k) r = cid) idxs
            else rows_of k' (nnps_cells s) cid)"
    and "\<exists>cells. s' = s\<lparr> nnps_cells := cells \<rparr>"
proof -
  from b obtain cells where
    f: "fold_err (NNPS_bin_particle (nnps_cell_size s) (nnps_narrays s)
          (w_x (nnps_pa_wrappers s ! k)) (w_y (nnps_pa_wrappers s ! k)) k) idxs (nnps_cells s) = Inr cells"
    and s': "s' = s\<lparr> nnps_cells := cells \<rparr>"
    by (auto simp: NNPS_bin_def Let_def bind_err_Inr_iff split: if_splits)
  from ok have ok': "list_all (NNPS_cell_ok (nnps_cell_size s) (nnps_pa_wrappers s) (nnps_narrays s))
                       (nnps_cells s)"
    by (simp add: NNPS_rows_consistent_def)
  from NNPS_bin_particles_rows [OF f k ok' k', of cid] s'
  show "rows_of k' (nnps_cells s') cid =
           (if k' = k
            then rows_of k (nnps_cells s) cid
                   @ filter (\<lambda>r. cell_of (nnps_cell_size s) (nnps_pa_wrappers s ! k) r = cid) idxs
            else rows_of k' (nnps_cells s) cid)"
    by simp
  from s' show "\<exists>cells. s' = s\<lparr> nnps_cells := cells \<rparr>" by blast
qed

lemma arange_uint_default: "arange_uint (int m) (-1) = [0 ..< m]"
  by (simp add: arange_uint_def)

lemma NNPS_update_rows:
  assumes u: "NNPS_update s0 = Inr s" and wf: "NNPS_wf s0"
  shows "\<exists>cells. s = (NNPS_compute_cell_size (s0\<lparr> nnps_cells := [] \<rparr>))\<lparr> nnps_cells := cells \<rparr>"
    and "NNPS_rows_consistent s"
    and "\<forall>k<nnps_narrays s0. \<forall>cid. rows_of k (nnps_cells s) cid
           = filter (\<lambda>r. cell_of (nnps_cell_size s) (nnps_pa_wrappers s0 ! k) r = cid)
               [0 ..< w_np (nnps_pa_wrappers s0 ! k)]"
proof -
  let ?s1 = "NNPS_compute_cell_size (s0\<lparr> nnps_cells := [] \<rparr>)"
  let ?n = "nnps_narrays s0"
  let ?ws = "nnps_pa_wrappers s0"
  let ?P = "\<lambda>j t. (\<exists>cells. t = ?s1\<lparr> nnps_cells := cells \<rparr>) \<and> NNPS_rows_consistent t
              \<and> (\<forall>k<?n. \<forall>cid. rows_of k (nnps_cells t) cid
                    = (if k < j then filter (\<lambda>r. cell_of (nnps_cell_size ?s1) (?ws ! k) r = cid)
                                       [0 ..< w_np (?ws ! k)]
                       else []))"
  have s1: "nnps_cells ?s1 = []" "nnps_narrays ?s1 = ?n" "nnps_pa_wrappers ?s1 = ?ws"
    "nnps_particles ?s1 = nnps_particles s0"
    by (simp_all add: NNPS_compute_cell_size_def Let_def)
  have np: "get_number_of_particles (nnps_particles s0 ! j) = w_np (?ws ! j)" if "j < ?n" for j
  proof -
    from wf have "map get_number_of_particles (nnps_particles s0) = map w_np ?ws"
      and "length (nnps_particles s0) = ?n" and "length ?ws = ?n"
      by (simp_all add: NNPS_wf_def)
    with that show ?thesis by (metis nth_map)
  qed
  have "?P ?n s"
  proof (rule fold_err_upt_invariant [where P = ?P, OF u [unfolded NNPS_update_def, folded s1(2)],
          unfolded s1(2)])
    show "?P 0 ?s1"
      by (auto simp: s1 NNPS_rows_consistent_def rows_of_def intro: exI [of _ "[]"])
  next
    fix j t t'
    assume j: "j < ?n" and t: "?P j t"
      and f: "(if j < length (nnps_particles t)
                then NNPS_bin t j
                       (arange_uint (int (get_number_of_particles (nnps_particles t ! j))) (-1))
                else Inl IndexError) = Inr t'"
    from t obtain cells where tc: "t = ?s1\<lparr> nnps_cells := cells \<rparr>" by blast
    then have tf: "nnps_narrays t = ?n" "nnps_pa_wrappers t = ?ws"
      "nnps_particles t = nnps_particles s0" "nnps_cell_size t = nnps_cell_size ?s1"
      by (simp_all add: s1)
    from f have b: "NNPS_bin t j [0 ..< w_np (?ws ! j)] = Inr t'"
      by (simp add: tf np [OF j] arange_uint_default split: if_splits)
    from j tf have jt: "j < nnps_narrays t" by simp
    from t have okt: "NNPS_rows_consistent t" by simp
    from NNPS_bin_rows(2) [OF b jt okt jt] tc obtain cells' where
      t': "t' = ?s1\<lparr> nnps_cells := cells' \<rparr>" by auto
    have ok': "NNPS_rows_consistent t'" using NNPS_bin_ok [OF b jt okt] by simp
    have "rows_of k (nnps_cells t') cid
            = (if k < Suc j then filter (\<lambda>r. cell_of (nnps_cell_size ?s1) (?ws ! k) r = cid)
                                       [0 ..< w_np (?ws ! k)]
               else [])" if k: "k < ?n" for k cid
    proof -
      from k tf have kt: "k < nnps_narrays t" by simp
      from t k have old: "rows_of k (nnps_cells t) cid
                    = (if k < j then filter (\<lambda>r. cell_of (nnps_cell_size ?s1) (?ws ! k) r = cid)
                                       [0 ..< w_np (?ws ! k)]
                       else [])"
        by simp
      from NNPS_bin_rows(1) [OF b jt okt kt, of cid] old tf show ?thesis
        by (cases "k = j") (auto simp: less_Suc_eq)
    qed
    with t' ok' show "?P (Suc j) t'" by blast
  qed
  then obtain cells where sc: "s = ?s1\<lparr> nnps_cells := cells \<rparr>"
    and ok: "NNPS_rows_consistent s"
    and rows: "\<forall>k<?n. \<forall>cid. rows_of k (nnps_cells s) cid
                    = (if k < ?n then filter (\<lambda>r. cell_of (nnps_cell_size ?s1) (?ws ! k) r = cid)
                                       [0 ..< w_np (?ws ! k)]
                       else [])"
    by blast
  from sc show "\<exists>cells. s = ?s1\<lparr> nnps_cells := cells \<rparr>" by blast
  from ok show "NNPS_rows_consistent s" .
  from sc have "nnps_cell_size s = nnps_cell_size ?s1" by simp
  with rows show "\<forall>k<?n. \<forall>cid. rows_of k (nnps_cells s) cid
           = filter (\<lambda>r. cell_of (nnps_cell_size s) (?ws ! k) r = cid) [0 ..< w_np (?ws ! k)]"
    by simp
qed


lemma nearest_step_in_bounds:
  assumes j: "j < w_np src" and wf: "wrapper_wf src"
  shows "nearest_step msg (w_x src) (w_y src) (Some (w_z src)) (w_h src) xi hi rs j (nbrs, nn, con)
           = (if is_neighbor rs xi hi src j
              then Inr ((if nn = length nbrs then UIntArray_resize (length nbrs + 50) nbrs else nbrs)
                          [nn := j],
                        nn + 1,
                        if nn = length nbrs then print (msg (length nbrs + 50)) con else con)
              else Inr (nbrs, nn, con))"
  using assms
  by (simp add: nearest_step_def is_neighbor_def wrapper_wf_def Let_def UIntArray_resize_def)

lemma nearest_steps:
  assumes "list_all (\<lambda>j. j < w_np src) rows" and wf: "wrapper_wf src" and "nn \<le> length nbrs"
  shows "\<exists>nbrs' con'.
           fold_err (nearest_step msg (w_x src) (w_y src) (Some (w_z src)) (w_h src) xi hi rs)
             rows (nbrs, nn, con)
             = Inr (nbrs', nn + length (filter (is_neighbor rs xi hi src) rows), con')
           \<and> take (nn + length (filter (is_neighbor rs xi hi src) rows)) nbrs'
               = take nn nbrs @ filter (is_neighbor rs xi hi src) rows
           \<and> nn + length (filter (is_neighbor rs xi hi src) rows) \<le> length nbrs'"
  using assms(1,3)
proof (induction rows arbitrary: nbrs nn con)
  case Nil
  then show ?case by simp
next
  case (Cons j rows)
  from Cons.prems have j: "j < w_np src" and rest: "list_all (\<lambda>j. j < w_np src) rows" by simp_all
  note step = nearest_step_in_bounds [OF j wf, of msg xi hi rs nbrs nn con]
  show ?case
  proof (cases "is_neighbor rs xi hi src j")
    case False
    with step Cons.IH [OF rest Cons.prems(2), of con] show ?thesis by simp
  next
    case True
    let ?g = "if nn = length nbrs then UIntArray_resize (length nbrs + 50) nbrs else nbrs"
    let ?c = "if nn = length nbrs then print (msg (length nbrs + 50)) con else con"
    have lg: "nn < length ?g" using Cons.prems(2) by (simp add: UIntArray_resize_def)
    have tg: "take nn ?g = take nn nbrs" using Cons.prems(2) by (simp add: UIntArray_resize_def)
    have l1: "nn + 1 \<le> length (?g[nn := j])" using lg by simp
    have t1: "take (nn + 1) (?g[nn := j]) = take nn nbrs @ [j]"
      using lg tg by (simp add: take_Suc_conv_app_nth)
    from Cons.IH [OF rest l1, of ?c] obtain nbrs' con' where
      f: "fold_err (nearest_step msg (w_x src) (w_y src) (Some (w_z src)) (w_h src) xi hi rs)
             rows (?g[nn := j], nn + 1, ?c)
             = Inr (nbrs', nn + 1 + length (filter (is_neighbor rs xi hi src) rows), con')"
      and t: "take (nn + 1 + length (filter (is_neighbor rs xi hi src) rows)) nbrs'
               = take (nn + 1) (?g[nn := j]) @ filter (is_neighbor rs xi hi src) rows"
      and l: "nn + 1 + length (filter (is_neighbor rs xi hi src) rows) \<le> length nbrs'"
      by blast
    from True step f t l t1 show ?thesis by simp
  qed
qed

lemma fold_err_Cons: "fold_err f (a # as) s = bind_err (f a s) (fold_err f as)"
  by (simp add: bind_err_def)

lemma nearest_cell_fold:
  assumes "\<forall>cid c. map_of cells cid = Some c \<longrightarrow> src_index < length (lindices c)"
  shows "fold_err (nearest_cell msg cells src_index x y z h xi hi rs) cids st
           = fold_err (nearest_step msg x y z h xi hi rs)
               (concat (map (rows_of src_index cells) cids)) st"
proof (induction cids arbitrary: st)
  case Nil
  then show ?case by simp
next
  case (Cons cid cids)
  have one: "nearest_cell msg cells src_index x y z h xi hi rs cid st
               = fold_err (nearest_step msg x y z h xi hi rs) (rows_of src_index cells cid) st"
    using assms by (cases "map_of cells cid") (simp_all add: nearest_cell_def rows_of_def)
  have ih: "fold_err (nearest_cell msg cells src_index x y z h xi hi rs) cids
              = fold_err (nearest_step msg x y z h xi hi rs)
                  (concat (map (rows_of src_index cells) cids))"
    by (rule ext) (rule Cons.IH)
  show ?case
    unfolding fold_err_Cons one ih by (simp add: fold_err_append)
qed


lemma floor_near:
  assumes "\<bar>a - b\<bar> < c" and "0 < (c::real)"
  shows "\<lfloor>b / c\<rfloor> \<in> {\<lfloor>a / c\<rfloor> - 1, \<lfloor>a / c\<rfloor>, \<lfloor>a / c\<rfloor> + 1}"
proof -
  from assms have b1: "b < a + c" and b2: "a - c < b" by linarith+
  have "b / c < (a + c) / c" using b1 assms(2) by (rule divide_strict_right_mono)
  then have up: "b / c < a / c + 1" using assms(2) by (simp add: add_divide_distrib)
  have "(a - c) / c < b / c" using b2 assms(2) by (rule divide_strict_right_mono)
  then have lo: "a / c - 1 < b / c" using assms(2) by (simp add: diff_divide_distrib)
  from up have "\<lfloor>b / c\<rfloor> \<le> \<lfloor>a / c + 1\<rfloor>" by (intro floor_mono) simp
  moreover from lo have "\<lfloor>a / c - 1\<rfloor> \<le> \<lfloor>b / c\<rfloor>" by (intro floor_mono) simp
  ultimately have "\<lfloor>a / c\<rfloor> - 1 \<le> \<lfloor>b / c\<rfloor> \<and> \<lfloor>b / c\<rfloor> \<le> \<lfloor>a / c\<rfloor> + 1" by simp
  then show ?thesis by auto
qed

lemma square_less_abs:
  assumes "a * a + b < c * c" and "0 \<le> b" and "0 < (c::real)"
  shows "\<bar>a\<bar> < c"
proof (rule ccontr)
  assume "\<not> \<bar>a\<bar> < c"
  then have "c \<le> \<bar>a\<bar>" by simp
  with assms(3) have "c * c \<le> \<bar>a\<bar> * \<bar>a\<bar>" by (intro mult_mono) simp_all
  then have "c * c \<le> a * a" by simp
  with assms(1,2) show False by simp
qed

lemma distance_less_abs:
  assumes "cPoint_distance p q < c"
  shows "\<bar>pt_x p - pt_x q\<bar> < c" and "\<bar>pt_y p - pt_y q\<bar> < c" and "0 < c"
proof -
  let ?dx = "pt_x p - pt_x q" and ?dy = "pt_y p - pt_y q" and ?dz = "pt_z p - pt_z q"
  from assms have c: "0 < c" and l: "?dx * ?dx + ?dy * ?dy + ?dz * ?dz < c * c"
    by (simp_all add: cPoint_distance_less distance_less_def)
  show "0 < c" by (rule c)
  have "?dx * ?dx + (?dy * ?dy + ?dz * ?dz) < c * c" using l by simp
  then show "\<bar>?dx\<bar> < c" by (rule square_less_abs) (use c in simp_all)
  have "?dy * ?dy + (?dx * ?dx + ?dz * ?dz) < c * c" using l by simp
  then show "\<bar>?dy\<bar> < c" by (rule square_less_abs) (use c in simp_all)
qed

lemma neighbor_cell_in_block:
  assumes "cPoint_distance xi xj < cs"
  shows "find_cell_id (cPoint_new (pt_x xj) (pt_y xj) 0) cs \<in> set (neighbor_cellids (find_cell_id xi cs))"
proof -
  note d = distance_less_abs [OF assms]
  from floor_near [OF d(1) d(3)] floor_near [OF d(2) d(3)]
  show ?thesis
    by (auto simp: find_cell_id_def real_to_int_def neighbor_cellids_def cPoint_new_def)
qed

lemma distinct_neighbor_cellids: "distinct (neighbor_cellids cid)"
  by (simp add: neighbor_cellids_def)

lemma distinct_concat_filters:
  assumes "distinct cids" and "distinct xs"
  shows "distinct (concat (map (\<lambda>c. filter (\<lambda>r. g r = c) xs) cids))"
  using assms(1)
proof (induction cids)
  case Nil
  then show ?case by simp
next
  case (Cons c cids)
  have "set (filter (\<lambda>r. g r = c) xs) \<inter> set (concat (map (\<lambda>c. filter (\<lambda>r. g r = c) xs) cids)) = {}"
    using Cons.prems by auto
  with Cons assms(2) show ?case by simp
qed

lemma NNPS_cell_size_bound:
  assumes rs: "0 \<le> nnps_radius_scale s" and w: "w \<in> set (nnps_pa_wrappers s)"
    and j: "j < length (w_h w)"
  shows "nnps_radius_scale s * w_h w ! j \<le> nnps_cell_size (NNPS_compute_cell_size s)"
    and "0 < nnps_cell_size (NNPS_compute_cell_size s)"
proof -
  let ?hmax = "NNPS_hmax (nnps_pa_wrappers s)"
  have "w_h w ! j \<in> (\<Union>w\<in>set (nnps_pa_wrappers s). set (w_h w))"
    by (rule UN_I [OF w]) (rule nth_mem [OF j])
  then have "w_h w ! j \<le> ?hmax"
    unfolding NNPS_hmax_Max by (intro Max_ge) auto
  with rs have "nnps_radius_scale s * w_h w ! j \<le> nnps_radius_scale s * ?hmax"
    by (rule mult_left_mono [rotated])
  then show "nnps_radius_scale s * w_h w ! j \<le> nnps_cell_size (NNPS_compute_cell_size s)"
    by (simp add: NNPS_compute_cell_size_result(1) del: less_divide_eq_numeral1)
  show "0 < nnps_cell_size (NNPS_compute_cell_size s)"
    by (simp add: NNPS_compute_cell_size_result(1) del: less_divide_eq_numeral1)
qed


lemma map_err_Inr:
  assumes "map_err f xs = Inr ys"
  shows "length ys = length xs" and "\<forall>i<length xs. f (xs ! i) = Inr (ys ! i)"
  using assms
proof (induction xs arbitrary: ys)
  case Nil
  { case 1 then show ?case by simp }
  { case 2 then show ?case by simp }
next
  case (Cons a as)
  { case 1
    then obtain b bs where "f a = Inr b" "map_err f as = Inr bs" "ys = b # bs"
      by (auto split: sum.splits)
    with Cons.IH(1) show ?case by simp }
  { case 2
    then obtain b bs where "f a = Inr b" "map_err f as = Inr bs" "ys = b # bs"
      by (auto split: sum.splits)
    with Cons.IH(2) show ?case by (auto simp: nth_Cons split: nat.splits) }
qed

lemma NNPS_init_cases:
  assumes "NNPS_init dimension particles radius_scale ghost_layers domain = Inr s"
  obtains ws limits where "map_err NNPSParticleArrayWrapper_init particles = Inr ws"
    and "NNPS_update
           \<lparr> nnps_particles = particles, nnps_narrays = length particles,
             nnps_pa_wrappers = ws, nnps_radius_scale = radius_scale,
             nnps_dim = dimension, nnps_domain = limits, nnps_cells = [],
             nnps_cell_size = 0, nnps_console = \<lparr> stdout = [], stderr = [] \<rparr> \<rparr> = Inr s"
  using assms by (auto simp: NNPS_init_def bind_err_Inr_iff)

lemma NNPSParticleArrayWrapper_init_np:
  "NNPSParticleArrayWrapper_init pa = Inr w \<Longrightarrow> w_np w = get_number_of_particles pa"
  by (auto simp: NNPSParticleArrayWrapper_init_def bind_err_Inr_iff)

lemma NNPS_init_wf:
  assumes ws: "map_err NNPSParticleArrayWrapper_init particles = Inr ws"
    and wf: "list_all wrapper_wf ws"
  shows "NNPS_wf \<lparr> nnps_particles = particles, nnps_narrays = length particles,
             nnps_pa_wrappers = ws, nnps_radius_scale = radius_scale,
             nnps_dim = dimension, nnps_domain = limits, nnps_cells = [],
             nnps_cell_size = 0, nnps_console = con \<rparr>"
proof -
  note m = map_err_Inr [OF ws]
  have "get_number_of_particles (particles ! i) = w_np (ws ! i)" if "i < length particles" for i
  proof -
    from m(2) that have "NNPSParticleArrayWrapper_init (particles ! i) = Inr (ws ! i)" by simp
    then show ?thesis by (rule NNPSParticleArrayWrapper_init_np [symmetric])
  qed
  then have "map get_number_of_particles particles = map w_np ws"
    using m(1) by (intro nth_equalityI) simp_all
  with m(1) wf show ?thesis by (simp add: NNPS_wf_def)
qed


lemma NNPS_update_wrappers:
  assumes "NNPS_update s0 = Inr s"
  shows "nnps_pa_wrappers s = nnps_pa_wrappers s0"
  by (rule fold_err_invariant
        [where P = "\<lambda>t. nnps_pa_wrappers t = nnps_pa_wrappers s0",
          OF assms [unfolded NNPS_update_def]])
     (auto simp: NNPS_compute_cell_size_def NNPS_bin_def Let_def bind_err_Inr_iff
        split: if_splits)

section \<open>The neighbour query computes the neighbour set\<close>

text \<open>
  After an update of a well-formed serial search with a nonnegative radius scale, the
  query for a destination row returns every source row that satisfies the neighbour
  criterion, each once, and no other row: a neighbour is closer than the cell size, so
  its cell is one of the nine cells the query visits, and the cell map holds every
  source row once, under its own cell.
\<close>

lemma NNPS_get_nearest_particles_exact:
  assumes u: "NNPS_update s0 = Inr s" and wf: "NNPS_wf s0"
    and rs: "0 \<le> nnps_radius_scale s0"
    and i1: "src_index < nnps_narrays s0" and i2: "dst_index < nnps_narrays s0"
    and d: "d_idx < w_np (nnps_pa_wrappers s0 ! dst_index)"
  shows "\<exists>found con.
           NNPS_get_nearest_particles s src_index dst_index d_idx nbrs
             = Inr (found, s\<lparr> nnps_console := con \<rparr>)
           \<and> distinct found
           \<and> set found =
               {j. j < w_np (nnps_pa_wrappers s ! src_index)
                   \<and> is_neighbor (nnps_radius_scale s)
                        (cPoint_new (w_x (nnps_pa_wrappers s ! dst_index) ! d_idx)
                                    (w_y (nnps_pa_wrappers s ! dst_index) ! d_idx)
                                    (w_z (nnps_pa_wrappers s ! dst_index) ! d_idx))
                        (nnps_radius_scale s * w_h (nnps_pa_wrappers s ! dst_index) ! d_idx)
                        (nnps_pa_wrappers s ! src_index) j}"
proof -
  let ?s1 = "NNPS_compute_cell_size (s0\<lparr> nnps_cells := [] \<rparr>)"
  let ?ws = "nnps_pa_wrappers s0"
  let ?src = "?ws ! src_index" and ?dst = "?ws ! dst_index"
  let ?rs = "nnps_radius_scale s0"
  let ?cs = "nnps_cell_size s"
  let ?xi = "cPoint_new (w_x ?dst ! d_idx) (w_y ?dst ! d_idx) (w_z ?dst ! d_idx)"
  let ?hi = "?rs * w_h ?dst ! d_idx"
  let ?cids = "neighbor_cellids (find_cell_id ?xi ?cs)"
  let ?np = "w_np ?src"
  let ?q = "is_neighbor ?rs ?xi ?hi ?src"
  let ?rows = "concat (map (rows_of src_index (nnps_cells s)) ?cids)"
  from NNPS_update_rows [OF u wf] obtain cells where sc: "s = ?s1\<lparr> nnps_cells := cells \<rparr>"
    and ok: "NNPS_rows_consistent s"
    and rows: "\<forall>k<nnps_narrays s0. \<forall>cid. rows_of k (nnps_cells s) cid
           = filter (\<lambda>r. cell_of ?cs (?ws ! k) r = cid) [0 ..< w_np (?ws ! k)]"
    by blast
  from sc have sf: "nnps_pa_wrappers s = ?ws" "nnps_radius_scale s = ?rs"
    "nnps_narrays s = nnps_narrays s0" "?cs = nnps_cell_size ?s1"
    by (simp_all add: NNPS_compute_cell_size_def Let_def)
  from wf have len: "length ?ws = nnps_narrays s0" and wfa: "list_all wrapper_wf ?ws"
    by (simp_all add: NNPS_wf_def)
  from wfa i1 i2 len have wsrc: "wrapper_wf ?src" and wdst: "wrapper_wf ?dst"
    by (simp_all add: list_all_length)
  from i1 i2 len have msrc: "?src \<in> set ?ws" and mdst: "?dst \<in> set ?ws" by simp_all
  have s1_ws: "nnps_pa_wrappers (s0\<lparr> nnps_cells := [] \<rparr>) = ?ws"
    "nnps_radius_scale (s0\<lparr> nnps_cells := [] \<rparr>) = ?rs" by simp_all
  have bound: "?rs * w_h w ! j \<le> ?cs" if "w \<in> set ?ws" "j < length (w_h w)" for w j
    using NNPS_cell_size_bound(1) [of "s0\<lparr> nnps_cells := [] \<rparr>" w j] that rs sf(4) by simp
  have "rows_of src_index (nnps_cells s)
          = (\<lambda>c. filter (\<lambda>r. cell_of ?cs ?src r = c) [0 ..< ?np])"
    by (rule ext) (use rows i1 in simp)
  then have rows_eq: "?rows = concat (map (\<lambda>c. filter (\<lambda>r. cell_of ?cs ?src r = c) [0 ..< ?np]) ?cids)"
    by (simp only:)
  have inb: "list_all (\<lambda>j. j < ?np) ?rows"
    unfolding rows_eq by (auto simp: list_all_iff)
  have cells_len: "\<forall>cid c. map_of (nnps_cells s) cid = Some c \<longrightarrow> src_index < length (lindices c)"
  proof (intro allI impI)
    fix cid c assume "map_of (nnps_cells s) cid = Some c"
    with ok have "NNPS_cell_ok ?cs (nnps_pa_wrappers s) (nnps_narrays s) (cid, c)"
      by (auto simp: NNPS_rows_consistent_def intro: NNPS_cell_ok_map_of)
    with i1 sf show "src_index < length (lindices c)" by (simp add: NNPS_cell_ok_def)
  qed
  from nearest_steps [OF inb wsrc, of 0 nbrs NNPSExtending ?xi ?hi ?rs "nnps_console s"]
  obtain nbrs' con' where
    f: "fold_err (nearest_step NNPSExtending (w_x ?src) (w_y ?src) (Some (w_z ?src)) (w_h ?src)
                    ?xi ?hi ?rs) ?rows (nbrs, 0, nnps_console s)
          = Inr (nbrs', length (filter ?q ?rows), con')"
    and t: "take (length (filter ?q ?rows)) nbrs' = filter ?q ?rows"
    by auto
  have run: "NNPS_get_nearest_particles s src_index dst_index d_idx nbrs
               = Inr (filter ?q ?rows, s\<lparr> nnps_console := con' \<rparr>)"
    unfolding NNPS_get_nearest_particles_def Let_def sf(1,2)
    using i1 i2 len d wdst f t
    by (simp add: wrapper_wf_def nearest_cell_fold [OF cells_len])
  have dist: "distinct (filter ?q ?rows)"
    unfolding rows_eq
    by (intro distinct_filter distinct_concat_filters distinct_neighbor_cellids) simp
  have in_block: "cell_of ?cs ?src j \<in> set ?cids" if j: "j < ?np" and q: "?q j" for j
  proof -
    let ?xj = "cPoint_new (w_x ?src ! j) (w_y ?src ! j) (w_z ?src ! j)"
    from wsrc j have jh: "j < length (w_h ?src)" by (simp add: wrapper_wf_def)
    from wdst d have dh: "d_idx < length (w_h ?dst)" by (simp add: wrapper_wf_def)
    from q have "cPoint_distance ?xi ?xj < ?hi \<or> cPoint_distance ?xi ?xj < ?rs * w_h ?src ! j"
      by (simp add: is_neighbor_def)
    with bound [OF mdst dh] bound [OF msrc jh] have "cPoint_distance ?xi ?xj < ?cs" by auto
    from neighbor_cell_in_block [OF this] show ?thesis
      by (simp add: cell_of_def cPoint_new_def)
  qed
  have "set (filter ?q ?rows) = {j. j < ?np \<and> ?q j}"
    unfolding rows_eq using in_block by auto
  with run dist show ?thesis unfolding sf(1,2) by blast
qed


text \<open>The same for a search as its constructor returns it.\<close>

lemma NNPS_init_nearest_exact:
  assumes init: "NNPS_init dimension particles radius_scale ghost_layers domain = Inr s"
    and wf: "list_all wrapper_wf (nnps_pa_wrappers s)"
    and rs: "0 \<le> radius_scale"
    and i1: "src_index < length particles" and i2: "dst_index < length particles"
    and d: "d_idx < w_np (nnps_pa_wrappers s ! dst_index)"
  shows "\<exists>found con.
           NNPS_get_nearest_particles s src_index dst_index d_idx nbrs
             = Inr (found, s\<lparr> nnps_console := con \<rparr>)
           \<and> distinct found
           \<and> set found =
               {j. j < w_np (nnps_pa_wrappers s ! src_index)
                   \<and> is_neighbor (nnps_radius_scale s)
                        (cPoint_new (w_x (nnps_pa_wrappers s ! dst_index) ! d_idx)
                                    (w_y (nnps_pa_wrappers s ! dst_index) ! d_idx)
                                    (w_z (nnps_pa_wrappers s ! dst_index) ! d_idx))
                        (nnps_radius_scale s * w_h (nnps_pa_wrappers s ! dst_index) ! d_idx)
                        (nnps_pa_wrappers s ! src_index) j}"
proof -
  from init obtain ws limits where ws: "map_err NNPSParticleArrayWrapper_init particles = Inr ws"
    and u: "NNPS_update
           \<lparr> nnps_particles = particles, nnps_narrays = length particles,
             nnps_pa_wrappers = ws, nnps_radius_scale = radius_scale,
             nnps_dim = dimension, nnps_domain = limits, nnps_cells = [],
             nnps_cell_size = 0, nnps_console = \<lparr> stdout = [], stderr = [] \<rparr> \<rparr> = Inr s"
    by (rule NNPS_init_cases)
  let ?s0 = "\<lparr> nnps_particles = particles, nnps_narrays = length particles,
             nnps_pa_wrappers = ws, nnps_radius_scale = radius_scale,
             nnps_dim = dimension, nnps_domain = limits, nnps_cells = [],
             nnps_cell_size = 0, nnps_console = \<lparr> stdout = [], stderr = [] \<rparr> \<rparr>"
  have w: "nnps_pa_wrappers s = ws"
    using NNPS_update_wrappers [OF u] by simp
  have wf0: "NNPS_wf ?s0" by (rule NNPS_init_wf [OF ws wf [unfolded w]])
  show ?thesis
    by (rule NNPS_get_nearest_particles_exact [OF u wf0])
       (use rs i1 i2 d w in simp_all)
qed

section \<open>The manager's largest smoothing length\<close>

text \<open>
  The local maximum that a rank sends to the reduction is the largest of \<open>-1e20\<close>
  and the smoothing lengths of its non-empty arrays; when every rank sends such a
  value, the reduced maximum is the largest over the arrays of all ranks.
\<close>

lemma local_bounds_step_Mh:
  "b_Mh (local_bounds_step w b)
     = Max (insert (b_Mh b) (if pw_x w \<noteq> [] then set (pw_h w) else {}))"
  by (simp add: local_bounds_step_def higher_maximum)

lemma fold_local_bounds_Mh:
  "b_Mh (fold local_bounds_step ws b)
     = Max (insert (b_Mh b) (\<Union>w\<in>set (filter (\<lambda>w. pw_x w \<noteq> []) ws). set (pw_h w)))"
proof -
  let ?S = "\<lambda>w. if pw_x w \<noteq> [] then set (pw_h w) else {}"
  have "b_Mh (fold local_bounds_step ws b) = fold (\<lambda>w a. Max (insert a (?S w))) ws (b_Mh b)"
  proof (induction ws arbitrary: b)
    case Nil
    show ?case by simp
  next
    case (Cons w ws)
    have "b_Mh (fold local_bounds_step (w # ws) b)
        = fold (\<lambda>w a. Max (insert a (?S w))) ws (b_Mh (local_bounds_step w b))"
      using Cons [of "local_bounds_step w b"] by simp
    then show ?case by (simp only: local_bounds_step_Mh fold_simps)
  qed
  also have "\<dots> = Max (insert (b_Mh b) (\<Union>w\<in>set ws. ?S w))"
    by (rule fold_Max_union) simp
  also have "(\<Union>w\<in>set ws. ?S w) = (\<Union>w\<in>set (filter (\<lambda>w. pw_x w \<noteq> []) ws). set (pw_h w))"
    by auto
  finally show ?thesis .
qed

lemma map_err_list_all2:
  "map_err f xs = Inr ys \<Longrightarrow> list_all2 (\<lambda>x y. f x = Inr y) xs ys"
proof (induction xs arbitrary: ys)
  case Nil
  then show ?case by simp
next
  case (Cons a as)
  then obtain b bs where "f a = Inr b" "map_err f as = Inr bs" "ys = b # bs"
    by (auto split: sum.splits)
  with Cons.IH show ?case by simp
qed

lemma wrappers_smoothing_lengths:
  assumes "list_all2 (\<lambda>e w. ParticleArrayWrapper_init (pae_pa e) = Inr w) es ws"
  shows "(\<Union>w\<in>set (filter (\<lambda>w. pw_x w \<noteq> []) ws). set (pw_h w))
       = (\<Union>e\<in>set (filter (\<lambda>e. doubles_of (pae_pa e) ''x'' \<noteq> []) es).
            set (doubles_of (pae_pa e) ''h''))"
  using assms
proof (induction rule: list_all2_induct)
  case Nil
  show ?case by simp
next
  case (Cons e es w ws)
  from ParticleArrayWrapper_init_fields(1,3) [OF Cons(1)] Cons(3)
  show ?case by simp
qed

lemma compute_bounds_local_Mh:
  assumes "compute_bounds peers m = Inr m'"
  shows "b_Mh (pm_local_bounds m')
       = Max (insert (- (10 ^ 20))
           (\<Union>e\<in>set (filter (\<lambda>e. doubles_of (pae_pa e) ''x'' \<noteq> []) (pm_pa_exchanges m)).
              set (doubles_of (pae_pa e) ''h'')))"
proof -
  from assms obtain ws where
    ws: "map_err (\<lambda>e. ParticleArrayWrapper_init (pae_pa e)) (pm_pa_exchanges m) = Inr ws"
    and l: "pm_local_bounds m' = fold local_bounds_step ws initial_bounds"
    by (auto simp: compute_bounds_def bind_err_Inr_iff Let_def split: if_splits)
  have i: "b_Mh initial_bounds = - (10 ^ 20)" by (simp add: initial_bounds_def)
  show ?thesis
    unfolding l fold_local_bounds_Mh i
      wrappers_smoothing_lengths [OF map_err_list_all2 [OF ws]] ..
qed

lemma fold_max_ranks:
  assumes "finite A" and "\<And>ws. ws \<in> set others \<Longrightarrow> finite (H ws)"
  shows "fold max (map (\<lambda>ws. Max (insert c (H ws))) others) (Max (insert (c::real) A))
       = Max (insert c (A \<union> (\<Union>ws\<in>set others. H ws)))"
  using assms
proof (induction others arbitrary: A)
  case Nil
  then show ?case by simp
next
  case (Cons r rs)
  have fo: "finite (H r)" using Cons.prems(2) by simp
  have "max (Max (insert c (H r))) (Max (insert c A)) = Max (insert c (H r) \<union> insert c A)"
    using fo Cons.prems(1) by (intro Max_Un [symmetric]) auto
  also have "insert c (H r) \<union> insert c A = insert c (H r \<union> A)" by auto
  finally have m: "max (Max (insert c (H r))) (Max (insert c A)) = Max (insert c (H r \<union> A))" .
  have "fold max (map (\<lambda>ws. Max (insert c (H ws))) (r # rs)) (Max (insert c A))
      = fold max (map (\<lambda>ws. Max (insert c (H ws))) rs) (Max (insert c (H r \<union> A)))"
    by (simp only: list.map fold_simps m)
  also have "\<dots> = Max (insert c ((H r \<union> A) \<union> (\<Union>ws\<in>set rs. H ws)))"
    using fo Cons.prems by (intro Cons.IH) auto
  also have "(H r \<union> A) \<union> (\<Union>ws\<in>set rs. H ws) = A \<union> (\<Union>ws\<in>set (r # rs). H ws)" by auto
  finally show ?case .
qed

lemma compute_bounds_all_ranks:
  assumes "compute_bounds (map (\<lambda>ws. fold local_bounds_step ws initial_bounds) others) m = Inr m'"
  shows "b_Mh (pm_global_bounds m')
       = Max (insert (- (10 ^ 20))
           ((\<Union>e\<in>set (filter (\<lambda>e. doubles_of (pae_pa e) ''x'' \<noteq> []) (pm_pa_exchanges m)).
               set (doubles_of (pae_pa e) ''h''))
            \<union> (\<Union>ws\<in>set others. \<Union>w\<in>set (filter (\<lambda>w. pw_x w \<noteq> []) ws). set (pw_h w))))"
proof -
  let ?A = "\<Union>e\<in>set (filter (\<lambda>e. doubles_of (pae_pa e) ''x'' \<noteq> []) (pm_pa_exchanges m)).
               set (doubles_of (pae_pa e) ''h'')"
  let ?H = "\<lambda>ws. \<Union>w\<in>set (filter (\<lambda>w. pw_x w \<noteq> []) ws). set (pw_h w)"
  let ?peers = "map (\<lambda>ws. fold local_bounds_step ws initial_bounds) others"
  have i: "b_Mh initial_bounds = - (10 ^ 20)" by (simp add: initial_bounds_def)
  have p: "map b_Mh ?peers = map (\<lambda>ws. Max (insert (- (10 ^ 20)) (?H ws))) others"
    by (simp add: fold_local_bounds_Mh i)
  have "b_Mh (pm_global_bounds m') = Allreduce max (b_Mh (pm_local_bounds m')) (map b_Mh ?peers)"
    using compute_bounds_Mh(1) [OF assms] by (simp only: Allreduce_max)
  also have "\<dots> = fold max (map (\<lambda>ws. Max (insert (- (10 ^ 20)) (?H ws))) others)
                     (Max (insert (- (10 ^ 20)) ?A))"
    unfolding Allreduce_def p compute_bounds_local_Mh [OF assms] ..
  also have "\<dots> = Max (insert (- (10 ^ 20)) (?A \<union> (\<Union>ws\<in>set others. ?H ws)))"
    by (rule fold_max_ranks) auto
  finally show ?thesis .
qed

lemma compute_cell_size_Mh:
  assumes "compute_cell_size peers m = Inr m'"
  shows "b_Mh (pm_local_bounds m')
       = Max (insert (- (10 ^ 20))
           (\<Union>e\<in>set (filter (\<lambda>e. doubles_of (pae_pa e) ''x'' \<noteq> []) (pm_pa_exchanges m)).
              set (doubles_of (pae_pa e) ''h'')))"
    and "peers = map (\<lambda>ws. fold local_bounds_step ws initial_bounds) others \<Longrightarrow>
         b_Mh (pm_global_bounds m')
       = Max (insert (- (10 ^ 20))
           ((\<Union>e\<in>set (filter (\<lambda>e. doubles_of (pae_pa e) ''x'' \<noteq> []) (pm_pa_exchanges m)).
               set (doubles_of (pae_pa e) ''h''))
            \<union> (\<Union>ws\<in>set others. \<Union>w\<in>set (filter (\<lambda>w. pw_x w \<noteq> []) ws). set (pw_h w))))"
proof -
  from assms obtain m1 where b: "compute_bounds peers m = Inr m1"
    and l: "pm_local_bounds m' = pm_local_bounds m1"
    and g: "pm_global_bounds m' = pm_global_bounds m1"
    by (cases rule: compute_cell_size_cases) simp_all
  show "b_Mh (pm_local_bounds m')
       = Max (insert (- (10 ^ 20))
           (\<Union>e\<in>set (filter (\<lambda>e. doubles_of (pae_pa e) ''x'' \<noteq> []) (pm_pa_exchanges m)).
              set (doubles_of (pae_pa e) ''h'')))"
    unfolding l by (rule compute_bounds_local_Mh [OF b])
  show "b_Mh (pm_global_bounds m')
       = Max (insert (- (10 ^ 20))
           ((\<Union>e\<in>set (filter (\<lambda>e. doubles_of (pae_pa e) ''x'' \<noteq> []) (pm_pa_exchanges m)).
               set (doubles_of (pae_pa e) ''h''))
            \<union> (\<Union>ws\<in>set others. \<Union>w\<in>set (filter (\<lambda>w. pw_x w \<noteq> []) ws). set (pw_h w))))"
    if "peers = map (\<lambda>ws. fold local_bounds_step ws initial_bounds) others"
    unfolding g using b unfolding that by (rule compute_bounds_all_ranks)
qed

section \<open>Cell geometry\<close>

text \<open>
  C9, as the spec states it, asks for the centroid \<open>(cid + 0.5) * cell_size\<close> and for
  the box \<open>centroid \<plusminus> (layers + 0.5) * cell_size\<close> on all three axes. The code
  fills the x and y components only and pins every z component to zero, so the claim
  fails on the z axis: the cell \<open>(0, 0, 0)\<close> of size 1 with two layers has centroid
  z equal to 0, not 0.5.
\<close>

theorem C9_centroid_z_counterexample:
  "pt_z (centroid (Cell_init (cIntPoint 0 0 0) 1 1 2))
     \<noteq> (real_of_int (ip_z (cIntPoint 0 0 0)) + 0.5) * 1"
  by (simp add: Cell_init_def compute_bounding_box_def get_centroid_def)

text \<open>
  C9, amended: for every constructed cell the centroid is \<open>(cid + 0.5) * cell_size\<close>
  on the x and y axes and the box is the centroid minus and plus
  \<open>(layers + 0.5) * cell_size\<close> on the x and y axes; the z components of the centroid
  and of both box corners are 0.
\<close>

theorem C9_cell_geometry:
  "centroid (Cell_init cid cs n lyrs) =
     cPoint ((real_of_int (ip_x cid) + 0.5) * cs) ((real_of_int (ip_y cid) + 0.5) * cs) 0
   \<and> boxmin (Cell_init cid cs n lyrs) =
     cPoint (pt_x (centroid (Cell_init cid cs n lyrs)) - (real_of_int lyrs + 0.5) * cs)
            (pt_y (centroid (Cell_init cid cs n lyrs)) - (real_of_int lyrs + 0.5) * cs) 0
   \<and> boxmax (Cell_init cid cs n lyrs) =
     cPoint (pt_x (centroid (Cell_init cid cs n lyrs)) + (real_of_int lyrs + 0.5) * cs)
            (pt_y (centroid (Cell_init cid cs n lyrs)) + (real_of_int lyrs + 0.5) * cs) 0"
  by (simp add: Cell_init_def compute_bounding_box_def get_centroid_def)

section \<open>The neighbour query and the brute-force reference\<close>

text \<open>
  C1: the query returns the rows \<open>j\<close> with \<open>d < hi\<close> or \<open>d < hj\<close>, both radii
  scaled by the radius scale, and \<^verbatim>\<open>brute_force_neighbors\<close> is meant to compute the
  same set. It does not: it compares with the unscaled smoothing length of the source
  row, and it runs over as many source rows as the destination array has. With radius
  scale 2, a destination row with \<open>h = 0.1\<close> and a source row with \<open>h = 0.5\<close> at
  distance 0.8, the query returns the source row and the reference does not; with one
  destination particle and two source particles next to it, the query returns both
  source rows and the reference only the first. That the query itself returns exactly
  the rows of the criterion, each once, is \<open>NNPS_init_nearest_exact\<close> above.
\<close>

theorem C1_brute_force_differs:
  "map_sum id fst
     (bind_err (NNPS_init 2 [two_radii_pa] 2 1 None)
        (\<lambda>s. NNPS_get_nearest_particles s 0 0 0 []))
     = Inr [0, 1]
   \<and> bind_err (NNPS_init 2 [two_radii_pa] 2 1 None) (\<lambda>s. brute_force_neighbors s 0 0 0 [])
     = Inr [0]
   \<and> map_sum id fst
     (bind_err (NNPS_init 2 [one_particle_pa, two_particles_pa] 2 1 None)
        (\<lambda>s. NNPS_get_nearest_particles s 1 0 0 []))
     = Inr [0, 1]
   \<and> bind_err (NNPS_init 2 [one_particle_pa, two_particles_pa] 2 1 None)
        (\<lambda>s. brute_force_neighbors s 1 0 0 [])
     = Inr [0]"
  by code_simp

section \<open>The halo exchange\<close>

text \<open>
  C2: rank 0 holds three Local rows and imports one row from rank 1. After
  \<^verbatim>\<open>remote_exchange_data\<close> the three rows and the local count are unchanged and
  one row is appended, but its tag is Local (0), not Remote: \<^verbatim>\<open>set_tag\<close> is
  called with 0, and with \<^verbatim>\<open>tag\<close> among the exchanged properties the tag then
  received is the sender's, which holds the row as Local. The second run exchanges
  the \<^verbatim>\<open>x\<close> property only.
\<close>

theorem C2_remote_rows_tagged_local:
  "map_sum id (\<lambda>e. (ints_of (pae_pa e) ''tag'', doubles_of (pae_pa e) ''x'',
                     pae_num_local e, pae_num_remote e))
     (remote_exchange_data stale_garbage remote_incoming remote_rank0)
     = Inr ([Local, Local, Local, Local], [0.1, 0.2, 0.3, 0.7], 3, 1)
   \<and> map_sum id (\<lambda>e. (ints_of (pae_pa e) ''tag'', doubles_of (pae_pa e) ''x'',
                     pae_num_local e, pae_num_remote e))
     (remote_exchange_data stale_garbage remote_incoming (remote_rank0\<lparr> pae_lb_props := [''x''] \<rparr>))
     = Inr ([Local, Local, Local, Local], [0.1, 0.2, 0.3, 0.7], 3, 1)
   \<and> Local \<noteq> Remote"
  by code_simp

section \<open>Dense global ids\<close>

text \<open>
  C3: let rank \<open>r\<close> hold the \<open>r\<close>-th exchange object, each with a global id array
  and a nonnegative local count, the counts summing to less than \<open>2^31\<close> (beyond
  that the source raises). Then \<^verbatim>\<open>update_particle_gids\<close> returns on every rank;
  rank \<open>r\<close> gets the ids from the sum of the counts of the lower ranks up to that sum
  plus its own count, in row order; and the ids of all ranks, in rank order, are
  \<open>0, 1, ..., total - 1\<close>: no id is missing and none occurs twice.
\<close>

theorem C3_gid_density:
  assumes ranks: "map pae_rank es = [0 ..< length es]"
    and gids: "list_all (\<lambda>e. \<not> isl (get_uint (pae_pa e) ''gid'')) es"
    and counts: "list_all (\<lambda>e. 0 \<le> pae_num_local e) es"
    and total: "sum_list (map pae_num_local es) < 2 ^ 31"
  shows "map (map_sum id (\<lambda>e'. uints_of (pae_pa e') ''gid'')) (update_particle_gids_all es)
           = map (\<lambda>r. Inr [nat (sum_list (take r (map pae_num_local es)))
                            ..< nat (sum_list (take r (map pae_num_local es)))
                                  + nat (pae_num_local (es ! r))])
               [0 ..< length es]
         \<and> concat (map (\<lambda>r. [nat (sum_list (take r (map pae_num_local es)))
                            ..< nat (sum_list (take r (map pae_num_local es)))
                                  + nat (pae_num_local (es ! r))])
                    [0 ..< length es])
           = [0 ..< nat (sum_list (map pae_num_local es))]"
proof
  let ?world = "map pae_num_local es"
  have nn: "\<forall>c\<in>set ?world. 0 \<le> c" using counts by (auto simp: list_all_iff)
  have rk: "pae_rank (es ! r) = r" if "r < length es" for r
    using that ranks by (metis nth_map nth_upt add_0)
  show "map (map_sum id (\<lambda>e'. uints_of (pae_pa e') ''gid'')) (update_particle_gids_all es)
           = map (\<lambda>r. Inr [nat (sum_list (take r ?world))
                            ..< nat (sum_list (take r ?world)) + nat (pae_num_local (es ! r))])
               [0 ..< length es]"
  proof (rule nth_equalityI)
    show "length (map (map_sum id (\<lambda>e'. uints_of (pae_pa e') ''gid'')) (update_particle_gids_all es))
            = length (map (\<lambda>r. Inr [nat (sum_list (take r ?world))
                            ..< nat (sum_list (take r ?world)) + nat (pae_num_local (es ! r))])
               [0 ..< length es])"
      by (simp add: update_particle_gids_all_def)
  next
    fix r
    assume "r < length (map (map_sum id (\<lambda>e'. uints_of (pae_pa e') ''gid''))
                          (update_particle_gids_all es))"
    then have r: "r < length es" by (simp add: update_particle_gids_all_def)
    have g: "\<not> isl (get_uint (pae_pa (es ! r)) ''gid'')"
      using gids r by (simp add: list_all_length)
    from update_particle_gids_result [of "es ! r" ?world, OF g] r rk [OF r] nn total
    have "map_sum id (\<lambda>e'. uints_of (pae_pa e') ''gid'') (update_particle_gids ?world (es ! r))
         = Inr [nat (sum_list (take r ?world))
                 ..< nat (sum_list (take r ?world)) + nat (pae_num_local (es ! r))]"
      by simp
    with r show "map (map_sum id (\<lambda>e'. uints_of (pae_pa e') ''gid'')) (update_particle_gids_all es) ! r
        = map (\<lambda>r. Inr [nat (sum_list (take r ?world))
                            ..< nat (sum_list (take r ?world)) + nat (pae_num_local (es ! r))])
               [0 ..< length es] ! r"
      by (simp add: update_particle_gids_all_def)
  qed
  have tk: "nat (sum_list (take r ?world)) = sum_list (take r (map nat ?world))" for r
  proof -
    have "\<forall>c\<in>set (take r ?world). 0 \<le> c" using nn by (meson in_set_takeD)
    then show ?thesis by (simp add: nat_sum_list take_map)
  qed
  have "concat (map (\<lambda>r. [sum_list (take r (map nat ?world))
                          ..< sum_list (take r (map nat ?world)) + map nat ?world ! r])
                  [0 ..< length es])
          = [0 ..< sum_list (take (length es) (map nat ?world))]"
    by (rule concat_ranges) simp
  moreover have "map (\<lambda>r. [sum_list (take r (map nat ?world))
                          ..< sum_list (take r (map nat ?world)) + map nat ?world ! r])
                  [0 ..< length es]
      = map (\<lambda>r. [nat (sum_list (take r ?world))
                    ..< nat (sum_list (take r ?world)) + nat (pae_num_local (es ! r))])
                  [0 ..< length es]"
    by (rule map_cong) (simp_all only: tk nth_map length_map atLeastLessThan_iff set_upt)
  ultimately show "concat (map (\<lambda>r. [nat (sum_list (take r ?world))
                            ..< nat (sum_list (take r ?world)) + nat (pae_num_local (es ! r))])
                    [0 ..< length es])
           = [0 ..< nat (sum_list ?world)]"
    using tk [of "length es"] by (simp only: take_all length_map order_refl)
qed

text \<open>Three rows on rank 0 and two on rank 1: the ids are 0, 1, 2 and 3, 4.\<close>

theorem C3_gid_density_witness:
  "map pae_rank two_rank_exchanges = [0 ..< length two_rank_exchanges]
   \<and> list_all (\<lambda>e. \<not> isl (get_uint (pae_pa e) ''gid'')) two_rank_exchanges
   \<and> list_all (\<lambda>e. 0 \<le> pae_num_local e) two_rank_exchanges
   \<and> sum_list (map pae_num_local two_rank_exchanges) < 2 ^ 31
   \<and> map (map_sum id (\<lambda>e'. uints_of (pae_pa e') ''gid'')) (update_particle_gids_all two_rank_exchanges)
       = [Inr [0, 1, 2], Inr [3, 4]]"
proof -
  have h1: "map pae_rank two_rank_exchanges = [0 ..< length two_rank_exchanges]" by code_simp
  have h2: "list_all (\<lambda>e. \<not> isl (get_uint (pae_pa e) ''gid'')) two_rank_exchanges" by code_simp
  have h3: "list_all (\<lambda>e. 0 \<le> pae_num_local e) two_rank_exchanges" by code_simp
  have h4: "sum_list (map pae_num_local two_rank_exchanges) < 2 ^ 31" by code_simp
  have v: "map (\<lambda>r. Inr [nat (sum_list (take r (map pae_num_local two_rank_exchanges)))
                            ..< nat (sum_list (take r (map pae_num_local two_rank_exchanges)))
                                  + nat (pae_num_local (two_rank_exchanges ! r))])
               [0 ..< length two_rank_exchanges]
           = ([Inr [0, 1, 2], Inr [3, 4]] :: (error + nat list) list)"
    by code_simp
  from C3_gid_density [OF h1 h2 h3 h4] v
  have "map (map_sum id (\<lambda>e'. uints_of (pae_pa e') ''gid'')) (update_particle_gids_all two_rank_exchanges)
       = [Inr [0, 1, 2], Inr [3, 4]]"
    by simp
  with h1 h2 h3 h4 show ?thesis by (intro conjI)
qed

section \<open>The load-balance exchange\<close>

text \<open>
  C4: let the array hold \<open>n\<close> rows in every property, \<open>n\<close> being the cached local
  count, with an integer tag array; let the export list hold \<open>numExport\<close> distinct
  rows of the array and let \<open>numImport\<close> be nonnegative. Then the exported rows are
  removed, the array is resized and the tags of the new rows are set to Local before
  anything is received, and when \<^verbatim>\<open>lb_exchange_data\<close> returns: the cached local
  count is \<open>n - numExport + numImport\<close>; every property has that many rows; the
  first \<open>n - numExport\<close> rows are the rows that were not exported, in their order; and
  the tags of the rows from \<open>n - numExport\<close> on are still Local, provided the tag is
  not among the exchanged properties or the tags received are Local (a rank sends
  rows it holds as Local).
\<close>

theorem C4_lb_exchange_data:
  assumes rows: "\<forall>name. map_option carray_length (pae_pa e name) = map_option (\<lambda>_. n) (pae_pa e name)"
    and nloc: "pae_num_local e = int n"
    and tag: "\<not> isl (get_int (pae_pa e) ''tag'')"
    and ids: "distinct (exportParticleLocalids e)" "list_all (\<lambda>i. i < n) (exportParticleLocalids e)"
    and nE: "numParticleExport e = int (length (exportParticleLocalids e))"
    and nI: "0 \<le> numParticleImport e"
    and x: "lb_exchange_data g incoming e = Inr e'"
  shows "pae_num_local e' = int n - numParticleExport e + numParticleImport e
    \<and> (\<forall>name. map_option carray_length (pae_pa e' name)
          = map_option (\<lambda>_. n - nat (numParticleExport e) + nat (numParticleImport e))
              (pae_pa e name))
    \<and> (\<forall>name. map_option (carray_take (n - nat (numParticleExport e))) (pae_pa e' name)
          = map_option (carray_select (kept_rows (exportParticleLocalids e) n)) (pae_pa e name))
    \<and> \<not> isl (lb_prepare g e)
    \<and> drop (n - nat (numParticleExport e)) (ints_of (pae_pa (projr (lb_prepare g e))) ''tag'')
          = replicate (nat (numParticleImport e)) Local
    \<and> (''tag'' \<notin> set (pae_lb_props e)
          \<or> (\<forall>q vs. incoming q ''tag'' = IntArray vs \<longrightarrow> list_all (\<lambda>t. t = Local) vs)
        \<longrightarrow> drop (n - nat (numParticleExport e)) (ints_of (pae_pa e') ''tag'')
              = replicate (nat (numParticleImport e)) Local)"
proof -
  let ?ids = "exportParticleLocalids e"
  let ?m = "n - length ?ids"
  let ?k = "nat (numParticleImport e)"
  let ?kept = "kept_rows ?ids n"
  let ?ok = "''tag'' \<notin> set (pae_lb_props e)
          \<or> (\<forall>q vs. incoming q ''tag'' = IntArray vs \<longrightarrow> list_all (\<lambda>t. t = Local) vs)"
  have rows': "\<forall>name c. pae_pa e name = Some c \<longrightarrow> carray_length c = n"
    using rows by (metis option.simps(9) option.inject)
  have ids': "\<forall>i\<in>set ?ids. i < n" using ids(2) by (simp add: list_all_iff)
  have mE: "n - nat (numParticleExport e) = ?m" using nE by simp
  have le: "length ?ids \<le> n" by (rule length_distinct_bounded [OF ids(1) ids'])
  from get_int_Some [OF tag] obtain ts where ts: "pae_pa e ''tag'' = Some (IntArray ts)" by blast
  from lb_prepare_result [OF rows' nloc tag ids(1) ids' nE nI, of g]
  obtain pa1 where p: "lb_prepare g e = Inr (e\<lparr> pae_pa := pa1 \<rparr>)"
    and L1: "\<forall>name. map_option carray_length (pa1 name) = map_option (\<lambda>_. ?m + ?k) (pae_pa e name)"
    and P1: "\<forall>name. map_option (carray_take ?m) (pa1 name)
               = map_option (carray_select ?kept) (pae_pa e name)"
    and T1: "list_all (\<lambda>t. t = Local) (drop ?m (ints_of pa1 ''tag''))"
    by blast
  let ?e1 = "e\<lparr> pae_pa := pa1 \<rparr>"
  from x p obtain e2 where
    x2: "exchange_data incoming (pae_num_local e - numParticleExport e)
           (count_recv_data (numParticleImport e) (importParticleProcs e)) ?e1 = Inr e2"
    and e': "e' = e2\<lparr> pae_num_local := pae_num_local e - numParticleExport e + numParticleImport e \<rparr>"
    by (auto simp: lb_exchange_data_def Let_def bind_err_Inr_iff)
  have cnt: "int ?m \<le> pae_num_local e - numParticleExport e" using nloc nE le by simp
  from exchange_data_keeps [OF x2 cnt count_recv_data_nonneg, of ?ok Local] T1
  obtain pa' where e2: "e2 = ?e1\<lparr> pae_pa := pa' \<rparr>"
    and K: "kept_by_exchange ?m ?ok Local pa1 pa'"
    by auto
  from K L1 have L: "\<forall>name. map_option carray_length (pa' name)
                        = map_option (\<lambda>_. ?m + ?k) (pae_pa e name)"
    by (simp add: kept_by_exchange_def)
  from K P1 have P: "\<forall>name. map_option (carray_take ?m) (pa' name)
                        = map_option (carray_select ?kept) (pae_pa e name)"
    by (simp add: kept_by_exchange_def)
  from K have T: "?ok \<longrightarrow> list_all (\<lambda>t. t = Local) (drop ?m (ints_of pa' ''tag''))"
    by (simp add: kept_by_exchange_def)
  have a1: "drop ?m (ints_of pa1 ''tag'') = replicate ?k Local"
    by (rule appended_tags [OF _ _ T1]) (simp_all add: L1 P1 ts)
  have a2: "drop ?m (ints_of pa' ''tag'') = replicate ?k Local" if ?ok
    by (rule appended_tags) (use that T in \<open>simp_all add: L P ts\<close>)
  have pe: "pae_pa e' = pa'" and ne: "pae_num_local e'
      = int n - numParticleExport e + numParticleImport e"
    using e' e2 nloc by simp_all
  show ?thesis
    unfolding mE pe ne p using L P a1 a2 by simp
qed


text \<open>
  Rank 0 with three rows exports row 1 and imports two rows: four rows afterwards, the
  first two being the old rows 0 and 2.
\<close>

theorem C4_lb_exchange_data_witness:
  "(\<forall>name. map_option carray_length (pae_pa lb_rank0 name)
             = map_option (\<lambda>_. 3) (pae_pa lb_rank0 name))
   \<and> pae_num_local lb_rank0 = int 3
   \<and> \<not> isl (get_int (pae_pa lb_rank0) ''tag'')
   \<and> distinct (exportParticleLocalids lb_rank0)
   \<and> list_all (\<lambda>i. i < 3) (exportParticleLocalids lb_rank0)
   \<and> numParticleExport lb_rank0 = int (length (exportParticleLocalids lb_rank0))
   \<and> 0 \<le> numParticleImport lb_rank0
   \<and> \<not> isl (lb_exchange_data stale_garbage lb_incoming lb_rank0)
   \<and> pae_num_local (projr (lb_exchange_data stale_garbage lb_incoming lb_rank0)) = 4
   \<and> map_option carray_length (pae_pa (projr (lb_exchange_data stale_garbage lb_incoming lb_rank0)) ''x'')
       = Some 4
   \<and> map_option (carray_take 2) (pae_pa (projr (lb_exchange_data stale_garbage lb_incoming lb_rank0)) ''x'')
       = Some (DoubleArray [0.1, 0.3])
   \<and> drop 2 (ints_of (pae_pa (projr (lb_exchange_data stale_garbage lb_incoming lb_rank0))) ''tag'')
       = [Local, Local]"
proof -
  let ?r = "lb_exchange_data stale_garbage lb_incoming lb_rank0"
  have h1: "\<forall>name. map_option carray_length (pae_pa lb_rank0 name)
             = map_option (\<lambda>_. 3) (pae_pa lb_rank0 name)"
    by (simp add: lb_rank0_def exchange_rank0_def scenario_A_exchange_def make_pa_def Let_def)
  have h2: "pae_num_local lb_rank0 = int 3" by code_simp
  have h3: "\<not> isl (get_int (pae_pa lb_rank0) ''tag'')" by code_simp
  have h4: "distinct (exportParticleLocalids lb_rank0)" by code_simp
  have h5: "list_all (\<lambda>i. i < 3) (exportParticleLocalids lb_rank0)" by code_simp
  have h6: "numParticleExport lb_rank0 = int (length (exportParticleLocalids lb_rank0))" by code_simp
  have h7: "0 \<le> numParticleImport lb_rank0" by code_simp
  have h8: "\<not> isl ?r" by code_simp
  have tg: "\<forall>q vs. lb_incoming q ''tag'' = IntArray vs \<longrightarrow> list_all (\<lambda>t. t = Local) vs"
    by (auto simp: lb_incoming_def Local_def)
  have v: "nat (numParticleExport lb_rank0) = 1" "nat (numParticleImport lb_rank0) = 2"
    "numParticleExport lb_rank0 = 1" "numParticleImport lb_rank0 = 2"
    "pae_pa lb_rank0 ''x'' = Some (DoubleArray [0.1, 0.2, 0.3])"
    "kept_rows (exportParticleLocalids lb_rank0) 3 = [0, 2]"
    by code_simp+
  note c = C4_lb_exchange_data [OF h1 h2 h3 h4 h5 h6 h7 sum_Inr_projr [OF h8]]
  from c have "pae_num_local (projr ?r) = 4" by (simp add: v)
  moreover from c have "map_option carray_length (pae_pa (projr ?r) ''x'') = Some 4"
    by (simp add: v)
  moreover from c have "map_option (carray_take 2) (pae_pa (projr ?r) ''x'')
       = Some (DoubleArray [0.1, 0.3])"
    by (simp add: v select_rows_def)
  moreover from c tg have "drop 2 (ints_of (pae_pa (projr ?r)) ''tag'') = [Local, Local]"
    by (simp add: v numeral_2_eq_2)
  ultimately show ?thesis using h1 h2 h3 h4 h5 h6 h7 h8 by (intro conjI)
qed

section \<open>Cell-content consistency after binning\<close>

text \<open>
  C5, as the spec states it, has every binning operation leave index lists of equal
  length with matching global ids. The serial search never appends a global id (the
  line is commented out in \<^verbatim>\<open>NNPS._bin\<close>), so after its update of Scenario A the
  lists of local indices are filled and the lists of global indices are empty.
\<close>

theorem C5_serial_gindices_counterexample:
  "\<not> isl (NNPS_init 2 [scenario_A_pa] 2 1 None)
   \<and> \<not> NNPS_consistent (projr (NNPS_init 2 [scenario_A_pa] 2 1 None))"
  by code_simp

text \<open>
  C5, amended: when the manager's \<^verbatim>\<open>local_bin\<close> or \<^verbatim>\<open>update_local_data\<close>
  returns, every cell of the cell map satisfies the invariant for every array (equal
  lengths, every row in its cell, every global index the row's global id);
  \<^verbatim>\<open>update_remote_data\<close> keeps the invariant; after \<^verbatim>\<open>NNPS.update\<close> every row
  of every cell lies in that cell, and the lists of global indices are empty.
\<close>

theorem C5_cell_content_consistency:
  "(local_bin peers s = Inr s' \<longrightarrow> manager_consistent s')
   \<and> (update_local_data s = Inr s' \<longrightarrow> manager_consistent s')
   \<and> (manager_consistent s \<and> update_remote_data s = Inr s' \<longrightarrow> manager_consistent s')
   \<and> (NNPS_update t = Inr t' \<longrightarrow> NNPS_rows_consistent t')"
  using local_bin_consistent update_local_data_consistent update_remote_data_consistent
    NNPS_update_ok
  by blast

text \<open>
  Scenario A with three local rows and the fourth as a remote row: the local rows are
  bound first, then the remote row; with all four rows local on rank 0 of a parallel
  run; and in the serial search.
\<close>

theorem C5_cell_content_consistency_witness:
  "\<not> isl (update_local_data
             (scenario_A_manager\<lparr> pm_pa_exchanges :=
                [scenario_A_exchange\<lparr> pae_num_local := 3, pae_num_remote := 1 \<rparr>] \<rparr>))
   \<and> \<not> isl (update_remote_data (projr (update_local_data
             (scenario_A_manager\<lparr> pm_pa_exchanges :=
                [scenario_A_exchange\<lparr> pae_num_local := 3, pae_num_remote := 1 \<rparr>] \<rparr>))))
   \<and> manager_consistent (projr (update_remote_data (projr (update_local_data
             (scenario_A_manager\<lparr> pm_pa_exchanges :=
                [scenario_A_exchange\<lparr> pae_num_local := 3, pae_num_remote := 1 \<rparr>] \<rparr>)))))
   \<and> \<not> isl (local_bin [initial_bounds] (scenario_A_manager\<lparr> pm_in_parallel := True \<rparr>))
   \<and> manager_consistent
        (projr (local_bin [initial_bounds] (scenario_A_manager\<lparr> pm_in_parallel := True \<rparr>)))
   \<and> \<not> isl (NNPS_update (projr (NNPS_init 2 [scenario_A_pa] 2 1 None)))
   \<and> NNPS_rows_consistent (projr (NNPS_update (projr (NNPS_init 2 [scenario_A_pa] 2 1 None))))"
proof -
  let ?m = "scenario_A_manager\<lparr> pm_pa_exchanges :=
              [scenario_A_exchange\<lparr> pae_num_local := 3, pae_num_remote := 1 \<rparr>] \<rparr>"
  let ?p = "scenario_A_manager\<lparr> pm_in_parallel := True \<rparr>"
  let ?n = "projr (NNPS_init 2 [scenario_A_pa] 2 1 None)"
  have l: "\<not> isl (update_local_data ?m)" by code_simp
  have r: "\<not> isl (update_remote_data (projr (update_local_data ?m)))" by code_simp
  have b: "\<not> isl (local_bin [initial_bounds] ?p)" by code_simp
  have u: "\<not> isl (NNPS_update ?n)" by code_simp
  have c1: "manager_consistent (projr (update_local_data ?m))"
    using C5_cell_content_consistency [of "[]" ?m "projr (update_local_data ?m)" ?n ?n]
      sum_Inr_projr [OF l]
    by blast
  have c2: "manager_consistent (projr (update_remote_data (projr (update_local_data ?m))))"
    using C5_cell_content_consistency
        [of "[]" "projr (update_local_data ?m)"
          "projr (update_remote_data (projr (update_local_data ?m)))" ?n ?n]
      sum_Inr_projr [OF r] c1
    by blast
  have c3: "manager_consistent (projr (local_bin [initial_bounds] ?p))"
    using C5_cell_content_consistency
        [of "[initial_bounds]" ?p "projr (local_bin [initial_bounds] ?p)" ?n ?n]
      sum_Inr_projr [OF b]
    by blast
  have c4: "NNPS_rows_consistent (projr (NNPS_update ?n))"
    using C5_cell_content_consistency [of "[]" ?m ?m ?n "projr (NNPS_update ?n)"]
      sum_Inr_projr [OF u]
    by blast
  from l r b u c2 c3 c4 show ?thesis by blast
qed

section \<open>Scenario B: the neighbour query\<close>

text \<open>
  C6, as the spec states it, expects the rows \<open>{0, 1, 3}\<close> for row 0 of Scenario A.
  Row 3 is at distance \<open>sqrt 1.04\<close> from row 0 and both radii are 1, so the query
  does not return it.
\<close>

theorem C6_scenario_B_counterexample:
  "map_sum id (\<lambda>r. set (fst r))
     (bind_err (NNPS_init 2 [scenario_A_pa] 2 1 None)
        (\<lambda>s. NNPS_get_nearest_particles s 0 0 0 []))
     \<noteq> Inr {0, 1, 3}"
  by code_simp

text \<open>
  C6, amended: with the Scenario A state and an up-to-date cell map, the query for
  row 0 returns exactly the rows 0 and 1, from the serial search and from the manager.
\<close>

theorem C6_scenario_B:
  "map_sum id fst
     (bind_err (NNPS_init 2 [scenario_A_pa] 2 1 None)
        (\<lambda>s. NNPS_get_nearest_particles s 0 0 0 []))
     = Inr [0, 1]
   \<and> map_sum id fst
     (bind_err (update_local_data scenario_A_manager)
        (\<lambda>s. get_nearest_particles s 0 0 0 []))
     = Inr [0, 1]"
  by code_simp

section \<open>Scenario A: binning four particles\<close>

text \<open>
  The serial search bins Scenario A as the spec says: the cell size is 1 and the
  occupied cells are (0,0), (1,0) and (0,1) with the rows 0 and 1, 2, and 3.
\<close>

lemma scenario_A_serial_binning:
  "map_sum id (\<lambda>s. (nnps_cell_size s, map (\<lambda>kc. (fst kc, lindices (snd kc))) (nnps_cells s)))
     (NNPS_init 2 [scenario_A_pa] 2 1 None)
     = Inr (1, [(cIntPoint 0 0 0, [[0, 1]]), (cIntPoint 1 0 0, [[2]]), (cIntPoint 0 1 0, [[3]])])"
  by code_simp

text \<open>
  C7: on a single rank the manager's constructor, which ends with
  \<^verbatim>\<open>local_bin\<close>, does not get as far as a cell size or a cell map for Scenario A:
  \<^verbatim>\<open>_compute_bounds\<close> reads the reduction buffers that only a parallel run
  assigns.
\<close>

theorem C7_manager_single_rank:
  "map_sum id (\<lambda>s. (pm_cell_size s, map (\<lambda>kc. (fst kc, lindices (snd kc))) (pm_cells s)))
     (ParallelManager_init stale_garbage [] 2 [scenario_A_pa] \<lparr> comm_rank = 0, comm_size = 1 \<rparr>
        2 2 None None)
     = Inl UnboundLocalError"
  by code_simp

section \<open>The cell size\<close>

text \<open>
  C8, as the spec states it, has the warning of a degenerate cell size go to standard
  error. The source prints it with the \<^verbatim>\<open>print\<close> statement: a particle with
  \<open>h = 0\<close> gives cell size 1, one line on standard output and nothing on standard
  error.
\<close>

theorem C8_warning_not_on_stderr_counterexample:
  "map_sum id (\<lambda>s. (nnps_cell_size s, stdout (nnps_console s), stderr (nnps_console s)))
     (NNPS_init 2 [make_pa [0] [0] [0] [0] [0] [0]] 2 1 None)
   = Inr (1, [CellSizeTooSmall 0], [])"
  by code_simp

text \<open>
  C8, amended: every cell-size computation that returns gives
  \<open>radius_scale * Mh\<close>, where \<open>Mh\<close> is the largest smoothing length, except that a
  product below \<open>1e-6\<close> gives cell size 1 and one warning line on standard output;
  standard error is not written, and the resulting cell size is never below \<open>1e-6\<close>.
  In the serial search \<open>Mh\<close> is the largest of -1 and all smoothing lengths. In the
  manager the local maximum is the largest of \<open>-1e20\<close> and the smoothing lengths
  \<open>hs\<close> of the rank's non-empty arrays, \<open>Mh\<close> is the largest of the local maximum
  and of what the other ranks sent, and when the other ranks sent their local maxima,
  \<open>Mh\<close> is the largest of \<open>-1e20\<close> and the smoothing lengths of the non-empty
  arrays of all ranks.
\<close>

theorem C8_cell_size:
  "(let p = nnps_radius_scale s * NNPS_hmax (nnps_pa_wrappers s);
        s' = NNPS_compute_cell_size s
    in NNPS_hmax (nnps_pa_wrappers s) = Max (insert (-1) (\<Union>w\<in>set (nnps_pa_wrappers s). set (w_h w)))
     \<and> nnps_cell_size s' = (if p < 1 / 1000000 then 1 else p)
     \<and> stdout (nnps_console s') =
         (if p < 1 / 1000000 then stdout (nnps_console s) @ [CellSizeTooSmall p]
          else stdout (nnps_console s))
     \<and> stderr (nnps_console s') = stderr (nnps_console s)
     \<and> 1 / 1000000 \<le> nnps_cell_size s')
   \<and> (\<forall>peers m m'. compute_cell_size peers m = Inr m' \<longrightarrow>
        (let hs = (\<Union>e\<in>set (filter (\<lambda>e. doubles_of (pae_pa e) ''x'' \<noteq> []) (pm_pa_exchanges m)).
                     set (doubles_of (pae_pa e) ''h''));
             Mh = b_Mh (pm_global_bounds m');
             p = pm_radius_scale m * Mh
         in b_Mh (pm_local_bounds m') = Max (insert (- (10 ^ 20)) hs)
          \<and> Mh = Max (insert (b_Mh (pm_local_bounds m')) (set (map b_Mh peers)))
          \<and> (\<forall>others. peers = map (\<lambda>ws. fold local_bounds_step ws initial_bounds) others \<longrightarrow>
                Mh = Max (insert (- (10 ^ 20))
                       (hs \<union> (\<Union>ws\<in>set others.
                                 \<Union>w\<in>set (filter (\<lambda>w. pw_x w \<noteq> []) ws). set (pw_h w)))))
          \<and> pm_cell_size m' = (if p < 1 / 1000000 then 1 else p)
          \<and> stdout (pm_console m') =
              (if p < 1 / 1000000 then stdout (pm_console m) @ [CellSizeTooSmall p]
               else stdout (pm_console m))
          \<and> stderr (pm_console m') = stderr (pm_console m)
          \<and> 1 / 1000000 \<le> pm_cell_size m'))"
proof -
  have a: "(let p = nnps_radius_scale s * NNPS_hmax (nnps_pa_wrappers s);
        s' = NNPS_compute_cell_size s
    in NNPS_hmax (nnps_pa_wrappers s) = Max (insert (-1) (\<Union>w\<in>set (nnps_pa_wrappers s). set (w_h w)))
     \<and> nnps_cell_size s' = (if p < 1 / 1000000 then 1 else p)
     \<and> stdout (nnps_console s') =
         (if p < 1 / 1000000 then stdout (nnps_console s) @ [CellSizeTooSmall p]
          else stdout (nnps_console s))
     \<and> stderr (nnps_console s') = stderr (nnps_console s)
     \<and> 1 / 1000000 \<le> nnps_cell_size s')"
    unfolding Let_def NNPS_compute_cell_size_result
    using NNPS_hmax_Max [of "nnps_pa_wrappers s"] by simp
  have b: "(let hs = (\<Union>e\<in>set (filter (\<lambda>e. doubles_of (pae_pa e) ''x'' \<noteq> []) (pm_pa_exchanges m)).
                     set (doubles_of (pae_pa e) ''h''));
             Mh = b_Mh (pm_global_bounds m');
             p = pm_radius_scale m * Mh
         in b_Mh (pm_local_bounds m') = Max (insert (- (10 ^ 20)) hs)
          \<and> Mh = Max (insert (b_Mh (pm_local_bounds m')) (set (map b_Mh peers)))
          \<and> (\<forall>others. peers = map (\<lambda>ws. fold local_bounds_step ws initial_bounds) others \<longrightarrow>
                Mh = Max (insert (- (10 ^ 20))
                       (hs \<union> (\<Union>ws\<in>set others.
                                 \<Union>w\<in>set (filter (\<lambda>w. pw_x w \<noteq> []) ws). set (pw_h w)))))
          \<and> pm_cell_size m' = (if p < 1 / 1000000 then 1 else p)
          \<and> stdout (pm_console m') =
              (if p < 1 / 1000000 then stdout (pm_console m) @ [CellSizeTooSmall p]
               else stdout (pm_console m))
          \<and> stderr (pm_console m') = stderr (pm_console m)
          \<and> 1 / 1000000 \<le> pm_cell_size m')"
    if c: "compute_cell_size peers m = Inr m'" for peers m m'
  proof -
    note r = compute_cell_size_result [OF c]
    have "1 / 1000000 \<le> pm_cell_size m'" unfolding r(1) by simp
    with r compute_cell_size_Mh(1) [OF c] compute_cell_size_Mh(2) [OF c]
    show ?thesis unfolding Let_def by blast
  qed
  from a b show ?thesis by blast
qed

text \<open>
  Scenario A on rank 0 of a parallel run whose other rank holds no particle: the
  largest smoothing length is 0.5 and the cell size is 1.
\<close>

theorem C8_cell_size_witness:
  "\<not> isl (compute_cell_size [initial_bounds] (scenario_A_manager\<lparr> pm_in_parallel := True \<rparr>))
   \<and> b_Mh (pm_global_bounds (projr (compute_cell_size [initial_bounds]
        (scenario_A_manager\<lparr> pm_in_parallel := True \<rparr>)))) = 1 / 2
   \<and> pm_cell_size (projr (compute_cell_size [initial_bounds]
        (scenario_A_manager\<lparr> pm_in_parallel := True \<rparr>))) = 1
   \<and> stderr (pm_console (projr (compute_cell_size [initial_bounds]
        (scenario_A_manager\<lparr> pm_in_parallel := True \<rparr>)))) = []"
proof -
  let ?m = "scenario_A_manager\<lparr> pm_in_parallel := True \<rparr>"
  let ?r = "compute_cell_size [initial_bounds] ?m"
  let ?hs = "\<Union>e\<in>set (filter (\<lambda>e. doubles_of (pae_pa e) ''x'' \<noteq> []) (pm_pa_exchanges ?m)).
               set (doubles_of (pae_pa e) ''h'')"
  have ok: "\<not> isl ?r" by code_simp
  have hs: "Max (insert (- (10 ^ 20))
              (?hs \<union> (\<Union>ws\<in>set ([[]] :: ParticleArrayWrapper list list). \<Union>w\<in>set (filter (\<lambda>w. pw_x w \<noteq> []) ws). set (pw_h w))))
            = 1 / 2"
    by code_simp
  have others: "[initial_bounds] = map (\<lambda>ws. fold local_bounds_step ws initial_bounds) [[]]"
    by simp
  have rs: "pm_radius_scale ?m = 2" by code_simp
  have e: "stderr (pm_console ?m) = []" by code_simp
  from C8_cell_size [of "projr (NNPS_init 2 [scenario_A_pa] 2 1 None)"] sum_Inr_projr [OF ok]
  have t: "(let hs = ?hs;
             Mh = b_Mh (pm_global_bounds (projr ?r));
             p = pm_radius_scale ?m * Mh
         in b_Mh (pm_local_bounds (projr ?r)) = Max (insert (- (10 ^ 20)) hs)
          \<and> Mh = Max (insert (b_Mh (pm_local_bounds (projr ?r))) (set (map b_Mh [initial_bounds])))
          \<and> (\<forall>others. [initial_bounds] = map (\<lambda>ws. fold local_bounds_step ws initial_bounds) others \<longrightarrow>
                Mh = Max (insert (- (10 ^ 20))
                       (hs \<union> (\<Union>ws\<in>set others.
                                 \<Union>w\<in>set (filter (\<lambda>w. pw_x w \<noteq> []) ws). set (pw_h w)))))
          \<and> pm_cell_size (projr ?r) = (if p < 1 / 1000000 then 1 else p)
          \<and> stdout (pm_console (projr ?r)) =
              (if p < 1 / 1000000 then stdout (pm_console ?m) @ [CellSizeTooSmall p]
               else stdout (pm_console ?m))
          \<and> stderr (pm_console (projr ?r)) = stderr (pm_console ?m)
          \<and> 1 / 1000000 \<le> pm_cell_size (projr ?r))"
    by blast
  from t [unfolded Let_def, THEN conjunct2, THEN conjunct2, THEN conjunct1, rule_format, OF others]
  have "b_Mh (pm_global_bounds (projr ?r))
      = Max (insert (- (10 ^ 20))
          (?hs \<union> (\<Union>ws\<in>set ([[]] :: ParticleArrayWrapper list list). \<Union>w\<in>set (filter (\<lambda>w. pw_x w \<noteq> []) ws). set (pw_h w))))" .
  then have Mh: "b_Mh (pm_global_bounds (projr ?r)) = 1 / 2" unfolding hs .
  from t have "pm_cell_size (projr ?r) = 1" and "stderr (pm_console (projr ?r)) = []"
    unfolding Let_def Mh rs e by simp_all
  with ok Mh show ?thesis by simp
qed
section \<open>The unused argument of the serial search\<close>

text \<open>
  C10: two serial searches built from the same dimension, particles, radius scale and
  domain but any two values of \<^verbatim>\<open>ghost_layers\<close> are the same object, so every
  sequence of update and neighbour calls gives the same cell maps and neighbour lists
  on both; and every cell an update creates has the default layer count of the cell
  constructor.
\<close>

theorem C10_ghost_layers_unread:
  "NNPS_init dimension particles radius_scale g1 domain
     = NNPS_init dimension particles radius_scale g2 domain
   \<and> map_sum id (\<lambda>s. NNPS_run s calls) (NNPS_init dimension particles radius_scale g1 domain)
     = map_sum id (\<lambda>s. NNPS_run s calls) (NNPS_init dimension particles radius_scale g2 domain)
   \<and> (\<forall>s s'. NNPS_update s = Inr s'
        \<longrightarrow> list_all (\<lambda>kc. layers (snd kc) = Cell_default_layers) (nnps_cells s'))"
  using NNPS_update_layers by (simp add: NNPS_init_def)

text \<open>Scenario A built with one and with seven ghost layers.\<close>

theorem C10_ghost_layers_unread_witness:
  "\<not> isl (NNPS_update (projr (NNPS_init 2 [scenario_A_pa] 2 1 None)))
   \<and> map (\<lambda>kc. layers (snd kc))
       (nnps_cells (projr (NNPS_update (projr (NNPS_init 2 [scenario_A_pa] 2 7 None))))) = [2, 2, 2]"
proof -
  let ?s = "projr (NNPS_init 2 [scenario_A_pa] 2 1 None)"
  have same: "NNPS_init 2 [scenario_A_pa] 2 1 None = NNPS_init 2 [scenario_A_pa] 2 7 None"
    using C10_ghost_layers_unread [of 2 "[scenario_A_pa]" 2 1 None 7] by simp
  have ok: "\<not> isl (NNPS_update ?s)"
    by code_simp
  have len: "length (nnps_cells (projr (NNPS_update ?s))) = 3"
    by code_simp
  have "list_all (\<lambda>kc. layers (snd kc) = Cell_default_layers) (nnps_cells (projr (NNPS_update ?s)))"
    using C10_ghost_layers_unread [of 2 "[scenario_A_pa]" 2 1 None 7 "[]"] sum_Inr_projr [OF ok]
    by blast
  then have "\<forall>l \<in> set (map (\<lambda>kc. layers (snd kc)) (nnps_cells (projr (NNPS_update ?s)))). l = 2"
    by (simp add: list_all_iff Cell_default_layers_def)
  with len have "map (\<lambda>kc. layers (snd kc)) (nnps_cells (projr (NNPS_update ?s))) = [2, 2, 2]"
    by (metis (no_types, lifting) length_map replicate_eqI numeral_3_eq_3 replicate_Suc replicate_0)
  with ok same show ?thesis by simp
qed

end
